theory Spec2Isabelle
  imports Complex_Main
begin

chapter \<open>The FML mesh, its halo exchange and the particle/grid transfer\<close>

text \<open>
  A shallow embedding of \<^verbatim>\<open>FFTWGrid.h\<close>, \<^verbatim>\<open>ParticleGridInterpolation.h\<close> and
  \<^verbatim>\<open>FoFBinning.h\<close>.  The build that is modelled is the one the compile-time
  defaults select: double precision, no bounds checking, corner-centred cells
  (\<^verbatim>\<open>CELLCENTERSHIFTED\<close> off), particles without individual mass, no
  \<^verbatim>\<open>DEBUG_INTERPOL\<close>.  For the constructor and the halo exchange both branches
  of \<^verbatim>\<open>USE_MPI\<close> are given, the MPI one as a ring of processes; the ghost
  reduction of the scatter is the one of the build without MPI.

  \<^item> A \<^verbatim>\<open>double\<close> is a \<open>real\<close>: all statements about values are statements of
    exact arithmetic.
  \<^item> \<^verbatim>\<open>ptrdiff_t\<close>, \<^verbatim>\<open>size_t\<close> and \<^verbatim>\<open>long long\<close> are \<open>int\<close> (or \<open>nat\<close> for a
    count): no grid that fits a memory leaves their 64 bits.  The 32 bits of
    \<^verbatim>\<open>int\<close> are written out where a cell index is computed or held in an
    \<^verbatim>\<open>int\<close>: the sums and products of \<^verbatim>\<open>get_index_real_2d\<close>,
    \<^verbatim>\<open>get_index_real_3d\<close> and of the iterator \<^verbatim>\<open>LoopIteratorReal\<close> wrap around
    (\<open>int_add\<close>, \<open>int_mul\<close>), and so do the narrowing initialisations
    (\<^verbatim>\<open>const int n = <long long>\<close>, \<open>to_int32\<close>).  The other \<^verbatim>\<open>int\<close> values
    (mesh size, ghost widths, coordinates, loop counters) are \<open>int\<close>.  Division
    and remainder truncate towards zero (\<open>cdiv\<close>, \<open>cmod\<close>).
  \<^item> The storage of a grid is the list of reals that
    \<^verbatim>\<open>reinterpret_cast<FloatType*>(fourier_grid_raw.data())\<close> addresses: complex
    cell \<open>c\<close> is the pair of reals at \<open>2c\<close> and \<open>2c+1\<close>.
  \<^item> A failed \<^verbatim>\<open>assert_mpi\<close> is the result \<open>Inl (AssertFailed msg)\<close>.  An access
    outside the storage raises nothing in the source; it is undefined
    behaviour and is the separate result \<open>Inl UndefinedBehaviour\<close>.
\<close>

section \<open>Errors, integer arithmetic of the source language\<close>

datatype error = AssertFailed string | UndefinedBehaviour

definition bind_err :: "error + 'a \<Rightarrow> ('a \<Rightarrow> error + 'b) \<Rightarrow> error + 'b" where
  "bind_err m f = (case m of Inl e \<Rightarrow> Inl e | Inr x \<Rightarrow> f x)"

text \<open>A \<^verbatim>\<open>for\<close> loop whose body may fail: the first failure ends the run.\<close>

fun fold_err :: "('a \<Rightarrow> 's \<Rightarrow> error + 's) \<Rightarrow> 'a list \<Rightarrow> 's \<Rightarrow> error + 's" where
  "fold_err f [] s = Inr s"
| "fold_err f (x # xs) s = (case f x s of Inl e \<Rightarrow> Inl e | Inr s' \<Rightarrow> fold_err f xs s')"

text \<open>
  Modelled from the spec: the macro \<^verbatim>\<open>assert_mpi(Expr, Msg)\<close> of
  \<^verbatim>\<open>FML/Global/Global.h\<close>, which is not among the sources (the header comment of
  \<^verbatim>\<open>FFTWGrid.h\<close> gives its signature); a failed assertion ends the run.
\<close>

definition assert_mpi :: "bool \<Rightarrow> string \<Rightarrow> error + unit" where
  "assert_mpi Expr Msg = (if Expr then Inr () else Inl (AssertFailed Msg))"

definition cdiv :: "int \<Rightarrow> int \<Rightarrow> int" where
  "cdiv a b = sgn a * sgn b * (\<bar>a\<bar> div \<bar>b\<bar>)"

definition cmod :: "int \<Rightarrow> int \<Rightarrow> int" where
  "cmod a b = a - b * cdiv a b"

definition to_int32 :: "int \<Rightarrow> int" where
  "to_int32 k = (k + 2147483648) mod 4294967296 - 2147483648"

text \<open>The operators \<^verbatim>\<open>+\<close> and \<^verbatim>\<open>*\<close> on two values of the 32-bit type \<^verbatim>\<open>int\<close>.\<close>

definition int_add :: "int \<Rightarrow> int \<Rightarrow> int" where
  "int_add a b = to_int32 (a + b)"

definition int_mul :: "int \<Rightarrow> int \<Rightarrow> int" where
  "int_mul a b = to_int32 (a * b)"

text \<open>
  Modelled from the spec: \<^verbatim>\<open>FML::power(base, exponent)\<close> of
  \<^verbatim>\<open>FML/Global/Global.h\<close>, which is not among the sources: the integer power,
  returned as \<^verbatim>\<open>long long\<close>.
\<close>

definition power_ll :: "int \<Rightarrow> nat \<Rightarrow> int" where
  "power_ll base exponent = base ^ exponent"

text \<open>The conversion \<^verbatim>\<open>(int) x\<close> of a double: the fraction is dropped.\<close>

definition int_of_double :: "real \<Rightarrow> int" where
  "int_of_double x = (if 0 \<le> x then \<lfloor>x\<rfloor> else \<lceil>x\<rceil>)"

section \<open>The mesh: \<^verbatim>\<open>FFTWGrid<N>\<close>\<close>

text \<open>
  The fields of the class, with the template parameter \<open>N\<close> kept as the field
  \<open>N_dim\<close>.  \<open>fourier_grid_raw\<close> is the storage seen as reals.
\<close>

record FFTWGrid =
  N_dim :: nat
  fourier_grid_raw :: "real list"
  Nmesh :: int
  Local_nx :: int
  Local_x_start :: int
  NmeshTotComplexAlloc :: int
  NmeshTotRealAlloc :: int
  NmeshTotComplex :: int
  NmeshTotReal :: int
  NmeshTotComplexSlice :: int
  NmeshTotRealSlice :: int
  n_extra_x_slices_left :: int
  n_extra_x_slices_right :: int
  grid_is_in_real_space :: bool

text \<open>
  The constructor \<^verbatim>\<open>FFTWGrid(Nmesh, n_extra_x_slices_left, n_extra_x_slices_right)\<close>.
  Without MPI the process owns all \<open>Nmesh\<close> slabs.  With MPI (and without the
  FFTW library, the branch whose arithmetic is in the source) process
  \<open>ThisTask\<close> of \<open>NTasks\<close> owns \<open>Nmesh / NTasks\<close> of them; the two assertions of
  that branch come first.
\<close>

definition FFTWGrid_fields ::
  "nat \<Rightarrow> int \<Rightarrow> int \<Rightarrow> int \<Rightarrow> int \<Rightarrow> int \<Rightarrow> int \<Rightarrow> FFTWGrid" where
  "FFTWGrid_fields N M nleft nright local_nx local_x_start ntotcomplex =
     (let ntotreal = local_nx * power_ll M (N - 1);
          cslice = (cdiv M 2 + 1) * power_ll M (N - 2);
          rslice = 2 * cslice;
          calloc = ntotcomplex + cslice * (nleft + nright);
          ralloc = 2 * calloc
      in \<lparr> N_dim = N,
           fourier_grid_raw = replicate (nat ralloc) 0,
           Nmesh = M,
           Local_nx = local_nx,
           Local_x_start = local_x_start,
           NmeshTotComplexAlloc = calloc,
           NmeshTotRealAlloc = ralloc,
           NmeshTotComplex = ntotcomplex,
           NmeshTotReal = ntotreal,
           NmeshTotComplexSlice = cslice,
           NmeshTotRealSlice = rslice,
           n_extra_x_slices_left = nleft,
           n_extra_x_slices_right = nright,
           grid_is_in_real_space = True \<rparr>)"

definition FFTWGrid_new :: "nat \<Rightarrow> int \<Rightarrow> int \<Rightarrow> int \<Rightarrow> FFTWGrid" where
  "FFTWGrid_new N M nleft nright =
     FFTWGrid_fields N M nleft nright M 0
       (fold (\<lambda>i tot. tot * (if i = N - 1 then cdiv M 2 + 1 else M)) [0..<N] 1)"

definition FFTWGrid_new_mpi ::
  "int \<Rightarrow> int \<Rightarrow> nat \<Rightarrow> int \<Rightarrow> int \<Rightarrow> int \<Rightarrow> error + FFTWGrid" where
  "FFTWGrid_new_mpi NTasks ThisTask N M nleft nright =
     bind_err (assert_mpi (1 < N)
       ''[FFTWGrid] FFTW r2c and c2r with MPI currently not supported for 1D\<newline>'') (\<lambda>_.
     bind_err (assert_mpi (cmod M NTasks = 0)
       ''[FFTWGrid] The number of CPUs should divide the gridsize. Otherwise there might be issues with extra padding in FFTW and in they way we divide the domain\<newline>'') (\<lambda>_.
     Inr (FFTWGrid_fields N M nleft nright (cdiv M NTasks) (ThisTask * cdiv M NTasks)
            (cdiv ((cdiv M 2 + 1) * power_ll M (N - 1)) NTasks))))"

text \<open>
  The pointers \<^verbatim>\<open>get_real_grid_left()\<close>, \<^verbatim>\<open>get_real_grid()\<close>,
  \<^verbatim>\<open>get_real_grid_right()\<close>, as offsets into the storage.
\<close>

definition get_real_grid_left :: "FFTWGrid \<Rightarrow> int" where
  "get_real_grid_left g = 0"

definition get_real_grid :: "FFTWGrid \<Rightarrow> int" where
  "get_real_grid g = get_real_grid_left g + NmeshTotRealSlice g * n_extra_x_slices_left g"

definition get_real_grid_right :: "FFTWGrid \<Rightarrow> int" where
  "get_real_grid_right g =
     get_real_grid_left g + NmeshTotRealSlice g * (n_extra_x_slices_left g + Local_nx g)"

definition get_fourier_grid :: "FFTWGrid \<Rightarrow> int" where
  "get_fourier_grid g = NmeshTotComplexSlice g * n_extra_x_slices_left g"

definition get_ntot_real_slice_alloc :: "FFTWGrid \<Rightarrow> int" where
  "get_ntot_real_slice_alloc g = NmeshTotRealSlice g"

text \<open>Reading and writing the storage at an offset; outside it the behaviour is undefined.\<close>

definition load_real :: "real list \<Rightarrow> int \<Rightarrow> error + real" where
  "load_real raw off =
     (if 0 \<le> off \<and> off < int (length raw) then Inr (raw ! nat off) else Inl UndefinedBehaviour)"

definition store_real :: "real list \<Rightarrow> int \<Rightarrow> real \<Rightarrow> error + real list" where
  "store_real raw off v =
     (if 0 \<le> off \<and> off < int (length raw) then Inr (raw[nat off := v])
      else Inl UndefinedBehaviour)"

subsection \<open>Index algebra\<close>

text \<open>
  \<^verbatim>\<open>get_index_real_2d\<close> and \<^verbatim>\<open>get_index_real_3d\<close> take \<^verbatim>\<open>int\<close> arguments and
  compute \<^verbatim>\<open>i * 2 * (Nmesh/2+1) + j\<close> and \<^verbatim>\<open>(Nmesh * i + j)*2*(Nmesh/2+1) + k\<close>
  in \<^verbatim>\<open>int\<close>, from left to right; only the result is widened to
  \<^verbatim>\<open>IndexIntType\<close>.  For other dimensions \<^verbatim>\<open>get_index_real\<close> accumulates the
  index in a variable of type \<^verbatim>\<open>IndexIntType\<close>.
\<close>

definition get_index_real_2d :: "FFTWGrid \<Rightarrow> int \<Rightarrow> int \<Rightarrow> int" where
  "get_index_real_2d g i j =
     int_add (int_mul (int_mul i 2) (int_add (cdiv (Nmesh g) 2) 1)) j"

definition get_index_real_3d :: "FFTWGrid \<Rightarrow> int \<Rightarrow> int \<Rightarrow> int \<Rightarrow> int" where
  "get_index_real_3d g i j k =
     int_add (int_mul (int_mul (int_add (int_mul (Nmesh g) i) j) 2)
                (int_add (cdiv (Nmesh g) 2) 1)) k"

definition get_index_real :: "FFTWGrid \<Rightarrow> int list \<Rightarrow> int" where
  "get_index_real g coord =
     (if N_dim g = 2 then get_index_real_2d g (coord ! 0) (coord ! 1)
      else if N_dim g = 3 then get_index_real_3d g (coord ! 0) (coord ! 1) (coord ! 2)
      else (let index = fold (\<lambda>idim index. index * Nmesh g + coord ! idim)
                          [1..<N_dim g - 1] (coord ! 0)
            in index * (2 * (cdiv (Nmesh g) 2 + 1)) + coord ! (N_dim g - 1)))"

text \<open>
  \<^verbatim>\<open>get_real\<close>, \<^verbatim>\<open>set_real\<close> and \<^verbatim>\<open>add_real\<close> index the pointer to the owned
  region; \<open>real_offset\<close> is the offset into the storage that results.  A
  coordinate vector shorter than \<open>N\<close> is read past its end.
\<close>

definition real_offset :: "FFTWGrid \<Rightarrow> int list \<Rightarrow> int" where
  "real_offset g coord = get_real_grid g + get_index_real g coord"

definition get_real :: "FFTWGrid \<Rightarrow> int list \<Rightarrow> error + real" where
  "get_real g coord =
     (if length coord < N_dim g then Inl UndefinedBehaviour
      else load_real (fourier_grid_raw g)
             (NmeshTotRealSlice g * n_extra_x_slices_left g + get_index_real g coord))"

definition set_real :: "FFTWGrid \<Rightarrow> int list \<Rightarrow> real \<Rightarrow> error + FFTWGrid" where
  "set_real g coord v =
     (if length coord < N_dim g then Inl UndefinedBehaviour
      else bind_err (store_real (fourier_grid_raw g) (real_offset g coord) v)
             (\<lambda>raw. Inr (g\<lparr>fourier_grid_raw := raw\<rparr>)))"

definition add_real :: "FFTWGrid \<Rightarrow> int list \<Rightarrow> real \<Rightarrow> error + FFTWGrid" where
  "add_real g coord v =
     (if length coord < N_dim g then Inl UndefinedBehaviour
      else bind_err (load_real (fourier_grid_raw g) (real_offset g coord)) (\<lambda>old.
           bind_err (store_real (fourier_grid_raw g) (real_offset g coord) (old + v))
             (\<lambda>raw. Inr (g\<lparr>fourier_grid_raw := raw\<rparr>))))"

definition get_real_from_index :: "FFTWGrid \<Rightarrow> int \<Rightarrow> error + real" where
  "get_real_from_index g index =
     load_real (fourier_grid_raw g)
       (NmeshTotRealSlice g * n_extra_x_slices_left g + index)"

text \<open>
  The recurrence of the specification for the padded real index, for
  comparison with \<open>real_offset\<close>:
  \<open>(((c0 + gL) * M + c1) * M + \<dots>) * (2 * (M div 2 + 1)) + c_last\<close>.
\<close>

definition idx_real_spec :: "int \<Rightarrow> int \<Rightarrow> int list \<Rightarrow> int" where
  "idx_real_spec M gL coord =
     foldl (\<lambda>acc c. acc * M + c) (hd coord + gL) (butlast (tl coord)) * (2 * (M div 2 + 1))
       + last coord"

text \<open>
  The grids the constructors build, with any contents: every derived count
  has the value the constructor gives it, and the storage has
  \<open>NmeshTotRealAlloc\<close> reals.
\<close>

definition grid_wf :: "FFTWGrid \<Rightarrow> bool" where
  "grid_wf g \<longleftrightarrow>
     2 \<le> N_dim g \<and> 1 \<le> Nmesh g \<and> 1 \<le> Local_nx g
     \<and> 0 \<le> n_extra_x_slices_left g \<and> 0 \<le> n_extra_x_slices_right g
     \<and> NmeshTotComplexSlice g = (Nmesh g div 2 + 1) * Nmesh g ^ (N_dim g - 2)
     \<and> NmeshTotRealSlice g = 2 * NmeshTotComplexSlice g
     \<and> NmeshTotComplex g = Local_nx g * NmeshTotComplexSlice g
     \<and> NmeshTotReal g = Local_nx g * Nmesh g ^ (N_dim g - 1)
     \<and> NmeshTotComplexAlloc g = NmeshTotComplex g
         + NmeshTotComplexSlice g * (n_extra_x_slices_left g + n_extra_x_slices_right g)
     \<and> NmeshTotRealAlloc g = 2 * NmeshTotComplexAlloc g
     \<and> int (length (fourier_grid_raw g)) = NmeshTotRealAlloc g"

section \<open>The range over the active real cells\<close>

text \<open>The four \<^verbatim>\<open>int\<close> fields of \<^verbatim>\<open>LoopIteratorReal\<close>.\<close>

record LoopIteratorReal =
  it_index :: int
  it_real_index :: int
  it_Nmesh :: int
  it_odd :: int

definition LoopIteratorReal_new :: "int \<Rightarrow> int \<Rightarrow> LoopIteratorReal" where
  "LoopIteratorReal_new index0 Nmesh0 =
     \<lparr> it_index = index0,
       it_real_index = int_add index0 (int_mul 2 (cdiv index0 Nmesh0)),
       it_Nmesh = Nmesh0,
       it_odd = cmod Nmesh0 2 \<rparr>"

definition it_neq :: "LoopIteratorReal \<Rightarrow> LoopIteratorReal \<Rightarrow> bool" where
  "it_neq a other = (it_index a \<noteq> it_index other)"

definition it_deref :: "LoopIteratorReal \<Rightarrow> int" where
  "it_deref a = it_real_index a"

definition it_incr :: "LoopIteratorReal \<Rightarrow> LoopIteratorReal" where
  "it_incr a =
     (let index = int_add (it_index a) 1;
          real_index = (if cmod index (it_Nmesh a) = 0
                        then int_add (it_real_index a) (if it_odd a \<noteq> 0 then 1 else 2)
                        else it_real_index a)
      in a\<lparr>it_index := index, it_real_index := int_add real_index 1\<rparr>)"

text \<open>The lanes the iterator skips at the end of a row of \<open>M\<close> cells.\<close>

definition pad_of :: "int \<Rightarrow> int" where
  "pad_of M = (if M mod 2 \<noteq> 0 then 1 else 2)"

record RealRange =
  rr_from :: int
  rr_to :: int
  rr_Nmesh :: int

definition RealRange_begin :: "RealRange \<Rightarrow> LoopIteratorReal" where
  "RealRange_begin r = LoopIteratorReal_new (rr_from r) (rr_Nmesh r)"

definition RealRange_end :: "RealRange \<Rightarrow> LoopIteratorReal" where
  "RealRange_end r = LoopIteratorReal_new (rr_to r) (rr_Nmesh r)"

definition get_real_range :: "FFTWGrid \<Rightarrow> RealRange" where
  "get_real_range g =
     \<lparr> rr_from = 0, rr_to = to_int32 (NmeshTotReal g), rr_Nmesh = Nmesh g \<rparr>"

text \<open>
  The range-based loop \<^verbatim>\<open>for (auto index : range) body\<close>, collecting the values
  it visits: \<^verbatim>\<open>for (it = begin(); it != end(); ++it) { index = *it; body }\<close>.  The
  loop ends when the counter of the iterator meets the counter of \<open>end\<close>;
  \<open>None\<close> is the loop that never ends.
\<close>

partial_function (option) range_loop ::
  "LoopIteratorReal \<Rightarrow> LoopIteratorReal \<Rightarrow> int list \<Rightarrow> int list option" where
  "range_loop it e acc =
     (if \<not> it_neq it e then Some acc
      else range_loop (it_incr it) e (acc @ [it_deref it]))"

declare range_loop.simps [code]

definition real_range_indices :: "RealRange \<Rightarrow> int list option" where
  "real_range_indices r = range_loop (RealRange_begin r) (RealRange_end r) []"

section \<open>Ghost widths and kernels of the particle/grid transfer\<close>

definition get_extra_slices_needed_by_order :: "int \<Rightarrow> int \<times> int" where
  "get_extra_slices_needed_by_order ORDER =
     (if ORDER = 1 then (0, 0)
      else if cmod ORDER 2 = 1 then (cdiv ORDER 2, cdiv ORDER 2 + 1)
      else (cdiv ORDER 2 - 1, cdiv ORDER 2))"

text \<open>
  The kernels \<^verbatim>\<open>kernel<ORDER>\<close> for the orders 1 to 5.  The primary template
  refuses every other order at compile time; the value given to it here is
  never used.
\<close>

definition kernel :: "int \<Rightarrow> real \<Rightarrow> real" where
  "kernel ORDER x =
     (if ORDER = 1 then (if x \<le> 1/2 then 1 else 0)
      else if ORDER = 2 then (if x < 1 then 1 - x else 0)
      else if ORDER = 3 then
        (if x < 1/2 then 3/4 - x * x
         else if x < 3/2 then 1/2 * (3/2 - x) * (3/2 - x) else 0)
      else if ORDER = 4 then
        (if x < 1 then 2/3 + x * x * (- 1 + 1/2 * x)
         else if x < 2 then (2 - x) * (2 - x) * (2 - x) / 6 else 0)
      else if ORDER = 5 then
        (if x < 1/2 then 115/192 + 1/4 * x * x * (x * x - 5/2)
         else if x < 3/2 then (55 + 4 * x * (5 - 2 * x * (15 + 2 * (- 5 + x) * x))) / 96
         else if x < 5/2 then (5 - 2 * x) * (5 - 2 * x) * (5 - 2 * x) * (5 - 2 * x) / 384
         else 0)
      else 0)"

section \<open>Particles\<close>

text \<open>
  The particle type \<open>T\<close> of the templates: a position array, and optionally a
  velocity array and a mass.
\<close>

datatype particle = Particle (get_pos: "real list") (get_vel: "real list option") (get_mass: "real option")

text \<open>
  Modelled from the spec: \<^verbatim>\<open>FML::PARTICLE::GetMass\<close> of
  \<^verbatim>\<open>FML/ParticleTypes/ReflectOnParticleMethods.h\<close>, which is not among the
  sources: the mass of the particle, and unit mass when the particle type has
  none.
\<close>

definition GetMass :: "particle \<Rightarrow> real" where
  "GetMass particle = (case get_mass particle of Some m \<Rightarrow> m | None \<Rightarrow> 1)"

section \<open>Scatter: \<^verbatim>\<open>particles_to_grid<N, ORDER, T>\<close>\<close>

definition fill_real_grid :: "FFTWGrid \<Rightarrow> real \<Rightarrow> error + FFTWGrid" where
  "fill_real_grid g val =
     (if 0 \<le> NmeshTotRealAlloc g \<and> NmeshTotRealAlloc g \<le> int (length (fourier_grid_raw g))
      then Inr (g\<lparr>fourier_grid_raw :=
                   replicate (nat (NmeshTotRealAlloc g)) val
                     @ drop (nat (NmeshTotRealAlloc g)) (fourier_grid_raw g)\<rparr>)
      else Inl UndefinedBehaviour)"

text \<open>
  The first two loops over \<open>idim\<close> in the body of the particle loop: the
  position in units of cells, the cell \<open>ix\<close> that holds the particle, and the
  offset \<open>x\<close> of the particle in that cell; then the ``periodic BC'' step.
\<close>

definition cell_of_particle :: "FFTWGrid \<Rightarrow> real list \<Rightarrow> int list" where
  "cell_of_particle density ps =
     map (\<lambda>idim. let ix = int_of_double (ps ! idim * real_of_int (Nmesh density))
                  in if idim = 0 then ix - Local_x_start density
                     else if ix = Nmesh density then 0 else ix)
       [0..<N_dim density]"

definition offset_in_cell :: "FFTWGrid \<Rightarrow> real list \<Rightarrow> real list" where
  "offset_in_cell density ps =
     map (\<lambda>idim. ps ! idim * real_of_int (Nmesh density)
                  - real_of_int (int_of_double (ps ! idim * real_of_int (Nmesh density))))
       [0..<N_dim density]"

text \<open>The first stencil offset \<open>xstart[idim]\<close>, for the offset \<open>x[idim]\<close> in the cell.\<close>

definition xstart_of :: "int \<Rightarrow> real \<Rightarrow> int" where
  "xstart_of ORDER x =
     (if cmod ORDER 2 = 0 then cdiv (- ORDER) 2 + 1
      else cdiv (- ORDER) 2 + (if 1/2 < x then 1 else 0))"

text \<open>
  The body of the loop over the \<open>ORDER^N\<close> neighbour cells, for the cell number
  \<open>i\<close>; the loop counter \<open>n\<close> of the source is \<open>ORDER ^ idim\<close>.
\<close>

definition go_left_right_or_stay :: "int \<Rightarrow> int list \<Rightarrow> nat \<Rightarrow> int \<Rightarrow> int" where
  "go_left_right_or_stay ORDER xstart idim i =
     (if ORDER = 1 then 0 else xstart ! idim + cmod (cdiv i (ORDER ^ idim)) ORDER)"

definition stencil_weight :: "nat \<Rightarrow> int \<Rightarrow> real list \<Rightarrow> int list \<Rightarrow> int \<Rightarrow> real" where
  "stencil_weight N ORDER x xstart i =
     fold (\<lambda>idim w. w * kernel ORDER
                        \<bar>- (x ! idim) + real_of_int (go_left_right_or_stay ORDER xstart idim i)\<bar>)
       [0..<N] 1"

definition stencil_icoord :: "nat \<Rightarrow> int \<Rightarrow> int \<Rightarrow> int list \<Rightarrow> int list \<Rightarrow> int \<Rightarrow> int list" where
  "stencil_icoord N ORDER M ix xstart i =
     map (\<lambda>idim. let ix_nbor = ix ! idim + go_left_right_or_stay ORDER xstart idim i
                  in if idim = 0 then ix_nbor
                     else (let c = (if M \<le> ix_nbor then ix_nbor - M else ix_nbor)
                           in if c < 0 then c + M else c))
       [0..<N]"

text \<open>
  The sum of the weights of one particle, the value the loop leaves in
  \<^verbatim>\<open>sumweights\<close>.
\<close>

definition sumweights :: "int \<Rightarrow> FFTWGrid \<Rightarrow> real list \<Rightarrow> real" where
  "sumweights ORDER density ps =
     (let x = offset_in_cell density ps;
          xstart = map (xstart_of ORDER) x;
          widthtondim = to_int32 (power_ll ORDER (N_dim density))
      in fold (\<lambda>i sw. sw + stencil_weight (N_dim density) ORDER x xstart i)
           (map int [0..<nat widthtondim]) 0)"

definition deposit_particle :: "int \<Rightarrow> real \<Rightarrow> real list \<Rightarrow> FFTWGrid \<Rightarrow> error + FFTWGrid" where
  "deposit_particle ORDER norm_fac ps density =
     (if length ps < N_dim density then Inl UndefinedBehaviour
      else
       (let x = offset_in_cell density ps;
            ix = cell_of_particle density ps;
            xstart = map (xstart_of ORDER) x;
            widthtondim = to_int32 (power_ll ORDER (N_dim density))
        in fold_err
             (\<lambda>i d. add_real d
                       (stencil_icoord (N_dim density) ORDER (Nmesh density) ix xstart i)
                       (stencil_weight (N_dim density) ORDER x xstart i * norm_fac * 1))
             (map int [0..<nat widthtondim]) density))"

text \<open>
  \<^verbatim>\<open>add_contribution_from_extra_slices\<close> without MPI: the received slab
  \<open>temp\<close> is the ghost slab itself.  \<open>add_slice n dst src\<close> is the loop
  \<^verbatim>\<open>for j < n: dst[j] += (src[j] + 1.0)\<close>.  The slab size and the loop counter are
  \<^verbatim>\<open>int\<close>, and so are their products \<^verbatim>\<open>num_cells_slice * i\<close>; \<^verbatim>\<open>Local_nx\<close> is a
  \<^verbatim>\<open>ptrdiff_t\<close>.
\<close>

definition add_slice :: "int \<Rightarrow> int \<Rightarrow> int \<Rightarrow> real list \<Rightarrow> error + real list" where
  "add_slice n dst src raw =
     fold_err
       (\<lambda>j raw. bind_err (load_real raw (src + j)) (\<lambda>temp.
                 bind_err (load_real raw (dst + j)) (\<lambda>old.
                 store_real raw (dst + j) (old + (temp + 1)))))
       (map int [0..<nat n]) raw"

definition add_contribution_from_extra_slices :: "FFTWGrid \<Rightarrow> error + FFTWGrid" where
  "add_contribution_from_extra_slices density =
     (let num_cells_slice = to_int32 (get_ntot_real_slice_alloc density);
          n_extra_left = n_extra_x_slices_left density;
          n_extra_right = n_extra_x_slices_right density
      in
       bind_err (fold_err
           (\<lambda>i raw. add_slice num_cells_slice
                       (get_real_grid density + int_mul num_cells_slice i)
                       (get_real_grid_right density + int_mul num_cells_slice i) raw)
           (map int [0..<nat n_extra_right]) (fourier_grid_raw density)) (\<lambda>raw1.
       bind_err (fold_err
           (\<lambda>i raw. add_slice num_cells_slice
                       (get_real_grid density + num_cells_slice * (Local_nx density - i))
                       (get_real_grid density - int_mul i num_cells_slice) raw)
           (map int [1..<nat (n_extra_left + 1)]) raw1) (\<lambda>raw2.
       Inr (density\<lparr>fourier_grid_raw := raw2\<rparr>))))"

text \<open>
  \<^verbatim>\<open>particles_to_grid<N, ORDER, T>(part, NumPart, NumPartTot, density)\<close>.  The
  array \<open>part\<close> holds \<open>length part\<close> particles; reading past it is undefined.
\<close>

definition particles_to_grid ::
  "int \<Rightarrow> particle list \<Rightarrow> nat \<Rightarrow> nat \<Rightarrow> FFTWGrid \<Rightarrow> error + FFTWGrid" where
  "particles_to_grid ORDER part NumPart NumPartTot density =
     (let nextra = get_extra_slices_needed_by_order ORDER in
      bind_err (assert_mpi (fst nextra \<le> n_extra_x_slices_left density
                            \<and> snd nextra \<le> n_extra_x_slices_right density)
                  ''[particles_to_grid] Too few extra slices\<newline>'') (\<lambda>_.
      bind_err (fill_real_grid density (- 1)) (\<lambda>density.
      let norm_fac = real_of_int (Nmesh density) ^ N_dim density / real NumPartTot in
      bind_err (fold_err
          (\<lambda>i d. if i < length part then deposit_particle ORDER norm_fac (get_pos (part ! i)) d
                  else Inl UndefinedBehaviour)
          [0..<NumPart] density) (\<lambda>density.
      add_contribution_from_extra_slices density))))"

text \<open>
  The sum of the field over the active cells of the owned region, as a caller
  takes it: \<^verbatim>\<open>for (auto index : grid.get_real_range()) sum += grid.get_real_from_index(index)\<close>.
\<close>

definition sum_real_range :: "FFTWGrid \<Rightarrow> (error + real) option" where
  "sum_real_range g =
     (case real_range_indices (get_real_range g) of
        None \<Rightarrow> None
      | Some is \<Rightarrow>
          Some (fold_err (\<lambda>index s. bind_err (get_real_from_index g index) (\<lambda>v. Inr (s + v)))
                  is 0))"

section \<open>Gather: \<^verbatim>\<open>interpolate_grid_to_particle_positions<N, ORDER, T>\<close>\<close>

definition gather_cell_of_particle :: "FFTWGrid \<Rightarrow> real list \<Rightarrow> int list" where
  "gather_cell_of_particle grid ps =
     map (\<lambda>idim. let ix = int_of_double (ps ! idim * real_of_int (Nmesh grid))
                  in if idim = 0
                     then (let ix1 = (if ix = Local_x_start grid + Local_nx grid
                                      then Local_x_start grid + Local_nx grid - 1 else ix)
                           in if ix1 < Local_x_start grid then Local_x_start grid else ix1)
                     else if ix = Nmesh grid then Nmesh grid - 1 else ix)
       [0..<N_dim grid]"

definition interpolate_particle :: "int \<Rightarrow> FFTWGrid \<Rightarrow> real list \<Rightarrow> error + real" where
  "interpolate_particle ORDER grid ps =
     (if length ps < N_dim grid then Inl UndefinedBehaviour
      else
       (let ixg = gather_cell_of_particle grid ps;
            x = map (\<lambda>idim. ps ! idim * real_of_int (Nmesh grid) - real_of_int (ixg ! idim))
                  [0..<N_dim grid];
            ix = ixg[0 := ixg ! 0 - Local_x_start grid];
            xstart = map (xstart_of ORDER) x;
            widthtondim = to_int32 (power_ll ORDER (N_dim grid))
        in fold_err
             (\<lambda>i v. bind_err
                       (get_real grid (stencil_icoord (N_dim grid) ORDER (Nmesh grid) ix xstart i))
                       (\<lambda>c. Inr (v + c * stencil_weight (N_dim grid) ORDER x xstart i)))
             (map int [0..<nat widthtondim]) 0))"

definition resize :: "real list \<Rightarrow> nat \<Rightarrow> real list" where
  "resize v n = take n v @ replicate (n - length v) 0"

definition interpolate_grid_to_particle_positions ::
  "int \<Rightarrow> FFTWGrid \<Rightarrow> particle list \<Rightarrow> nat \<Rightarrow> real list \<Rightarrow> error + real list" where
  "interpolate_grid_to_particle_positions ORDER grid part NumPart interpolated_values =
     (let nextra = get_extra_slices_needed_by_order ORDER in
      bind_err (assert_mpi (0 < Nmesh grid)
        ''[interpolate_grid_to_particle_positions] Grid has to be already allocated!'') (\<lambda>_.
      bind_err (assert_mpi (fst nextra \<le> n_extra_x_slices_left grid
                            \<and> snd nextra \<le> n_extra_x_slices_right grid)
        ''[interpolate_grid_to_particle_positions] Too few extra slices\<newline>'') (\<lambda>_.
      fold_err
        (\<lambda>ind vals. if ind < length part
                     then bind_err (interpolate_particle ORDER grid (get_pos (part ! ind)))
                            (\<lambda>v. Inr (vals[ind := v]))
                     else Inl UndefinedBehaviour)
        [0..<NumPart] (resize interpolated_values NumPart))))"

section \<open>Dispatch on the name of the method\<close>

definition particles_to_grid_by_name ::
  "particle list \<Rightarrow> nat \<Rightarrow> nat \<Rightarrow> FFTWGrid \<Rightarrow> string \<Rightarrow> error + FFTWGrid" where
  "particles_to_grid_by_name part NumPart NumPartTot density density_assignment_method =
     bind_err (if density_assignment_method = ''NGP''
               then particles_to_grid 1 part NumPart NumPartTot density else Inr density) (\<lambda>density.
     bind_err (if density_assignment_method = ''CIC''
               then particles_to_grid 2 part NumPart NumPartTot density else Inr density) (\<lambda>density.
     bind_err (if density_assignment_method = ''TSC''
               then particles_to_grid 3 part NumPart NumPartTot density else Inr density) (\<lambda>density.
     bind_err (if density_assignment_method = ''PCS''
               then particles_to_grid 4 part NumPart NumPartTot density else Inr density) (\<lambda>density.
     (if density_assignment_method = ''PQS''
      then particles_to_grid 5 part NumPart NumPartTot density else Inr density)))))"

definition interpolate_grid_to_particle_positions_by_name ::
  "FFTWGrid \<Rightarrow> particle list \<Rightarrow> nat \<Rightarrow> real list \<Rightarrow> string \<Rightarrow> error + real list" where
  "interpolate_grid_to_particle_positions_by_name grid part NumPart interpolated_values
       interpolation_method =
     bind_err (if interpolation_method = ''NGP''
               then interpolate_grid_to_particle_positions 1 grid part NumPart interpolated_values
               else Inr interpolated_values) (\<lambda>interpolated_values.
     bind_err (if interpolation_method = ''CIC''
               then interpolate_grid_to_particle_positions 2 grid part NumPart interpolated_values
               else Inr interpolated_values) (\<lambda>interpolated_values.
     bind_err (if interpolation_method = ''TSC''
               then interpolate_grid_to_particle_positions 3 grid part NumPart interpolated_values
               else Inr interpolated_values) (\<lambda>interpolated_values.
     bind_err (if interpolation_method = ''PCS''
               then interpolate_grid_to_particle_positions 4 grid part NumPart interpolated_values
               else Inr interpolated_values) (\<lambda>interpolated_values.
     (if interpolation_method = ''PQS''
      then interpolate_grid_to_particle_positions 5 grid part NumPart interpolated_values
      else Inr interpolated_values)))))"

section \<open>Halo exchange: \<^verbatim>\<open>communicate_boundaries\<close>\<close>

text \<open>
  \<^verbatim>\<open>std::memcpy(recvbuf, sendbuf, bytes_slice)\<close> inside one storage.  A
  \<^verbatim>\<open>FloatType\<close> has 8 bytes and \<open>bytes_slice\<close> is a multiple of 8; a negative
  count, a range outside the storage or overlapping ranges are undefined.
\<close>

definition memcpy_reals :: "real list \<Rightarrow> int \<Rightarrow> int \<Rightarrow> int \<Rightarrow> error + real list" where
  "memcpy_reals raw recvbuf sendbuf bytes =
     (let n = bytes div 8 in
      if 0 \<le> bytes \<and> 0 \<le> sendbuf \<and> sendbuf + n \<le> int (length raw)
         \<and> 0 \<le> recvbuf \<and> recvbuf + n \<le> int (length raw)
         \<and> (n = 0 \<or> recvbuf + n \<le> sendbuf \<or> sendbuf + n \<le> recvbuf)
      then Inr (map (\<lambda>k. if recvbuf \<le> int k \<and> int k < recvbuf + n
                          then raw ! nat (int k - recvbuf + sendbuf) else raw ! k)
                  [0..<length raw])
      else Inl UndefinedBehaviour)"

definition n_to_recv_right :: "FFTWGrid \<Rightarrow> int" where
  "n_to_recv_right g =
     (if Local_nx g < n_extra_x_slices_right g then Local_nx g else n_extra_x_slices_right g)"

definition n_to_recv_left :: "FFTWGrid \<Rightarrow> int" where
  "n_to_recv_left g =
     (if Local_nx g < n_extra_x_slices_left g then Local_nx g else n_extra_x_slices_left g)"

definition bytes_slice :: "FFTWGrid \<Rightarrow> int" where
  "bytes_slice g = to_int32 (NmeshTotRealSlice g * 8)"

text \<open>Without MPI: the two loops of local copies.\<close>

definition communicate_boundaries :: "FFTWGrid \<Rightarrow> error + FFTWGrid" where
  "communicate_boundaries g =
     bind_err (fold_err
         (\<lambda>i raw. memcpy_reals raw
                     (get_real_grid_right g + NmeshTotRealSlice g * i)
                     (get_real_grid g + NmeshTotRealSlice g * i)
                     (bytes_slice g))
         (map int [0..<nat (n_to_recv_right g)]) (fourier_grid_raw g)) (\<lambda>raw1.
     bind_err (fold_err
         (\<lambda>i raw. memcpy_reals raw
                     (get_real_grid_left g
                        + NmeshTotRealSlice g * (n_extra_x_slices_left g - 1 - i))
                     (get_real_grid g + NmeshTotRealSlice g * (Local_nx g - 1 - i))
                     (bytes_slice g))
         (map int [0..<nat (n_to_recv_left g)]) raw1) (\<lambda>raw2.
     Inr (g\<lparr>fourier_grid_raw := raw2\<rparr>)))"

text \<open>
  With MPI: a ring of \<open>NTasks\<close> processes, process \<open>ThisTask\<close> holding the grid
  \<open>gs ! ThisTask\<close>.  All processes run the same loops on grids of one shape,
  so the rounds of \<^verbatim>\<open>MPI_Sendrecv\<close> pair up: in a round every process
  receives, at its receive offset, the reals that the process \<open>source\<close> sends
  from its send offset.  A round reads the contents before the round.
\<close>

definition MPI_Sendrecv ::
  "real list \<Rightarrow> int \<Rightarrow> real list \<Rightarrow> int \<Rightarrow> int \<Rightarrow> error + real list" where
  "MPI_Sendrecv sender_raw sendbuf raw recvbuf bytes =
     (let n = bytes div 8 in
      if 0 \<le> bytes \<and> 0 \<le> sendbuf \<and> sendbuf + n \<le> int (length sender_raw)
         \<and> 0 \<le> recvbuf \<and> recvbuf + n \<le> int (length raw)
      then Inr (map (\<lambda>k. if recvbuf \<le> int k \<and> int k < recvbuf + n
                          then sender_raw ! nat (int k - recvbuf + sendbuf) else raw ! k)
                  [0..<length raw])
      else Inl UndefinedBehaviour)"

fun map_err :: "('a \<Rightarrow> error + 'b) \<Rightarrow> 'a list \<Rightarrow> error + 'b list" where
  "map_err f [] = Inr []"
| "map_err f (x # xs) =
     (case f x of Inl e \<Rightarrow> Inl e
      | Inr y \<Rightarrow> (case map_err f xs of Inl e \<Rightarrow> Inl e | Inr ys \<Rightarrow> Inr (y # ys)))"

definition sendrecv_round ::
  "(FFTWGrid \<Rightarrow> int) \<Rightarrow> (FFTWGrid \<Rightarrow> int) \<Rightarrow> (int \<Rightarrow> int) \<Rightarrow> FFTWGrid list
     \<Rightarrow> error + FFTWGrid list" where
  "sendrecv_round sendbuf recvbuf source gs =
     map_err (\<lambda>ThisTask.
         let g = gs ! ThisTask;
             sender = gs ! nat (source (int ThisTask))
         in bind_err (MPI_Sendrecv (fourier_grid_raw sender) (sendbuf sender)
                        (fourier_grid_raw g) (recvbuf g) (bytes_slice g))
              (\<lambda>raw. Inr (g\<lparr>fourier_grid_raw := raw\<rparr>)))
       [0..<length gs]"

definition communicate_boundaries_mpi :: "FFTWGrid list \<Rightarrow> error + FFTWGrid list" where
  "communicate_boundaries_mpi gs =
     (case gs of [] \<Rightarrow> Inr []
      | g0 # _ \<Rightarrow>
        (let NTasks = int (length gs);
             rightcpu = (\<lambda>ThisTask. cmod (ThisTask + 1) NTasks);
             leftcpu = (\<lambda>ThisTask. cmod (ThisTask - 1 + NTasks) NTasks)
         in
          bind_err (fold_err
              (\<lambda>i. sendrecv_round
                      (\<lambda>g. get_real_grid g + NmeshTotRealSlice g * i)
                      (\<lambda>g. get_real_grid_right g + NmeshTotRealSlice g * i)
                      rightcpu)
              (map int [0..<nat (n_to_recv_right g0)]) gs) (\<lambda>gs1.
          fold_err
              (\<lambda>i. sendrecv_round
                      (\<lambda>g. get_real_grid g + NmeshTotRealSlice g * (Local_nx g - 1 - i))
                      (\<lambda>g. get_real_grid_left g
                              + NmeshTotRealSlice g * (n_extra_x_slices_left g - 1 - i))
                      leftcpu)
              (map int [0..<nat (n_to_recv_left g0)]) gs1)))"

text \<open>
  The rings the statements are about: at least one process, every grid as
  the constructor builds it, and all of one shape.
\<close>

definition same_shape :: "FFTWGrid \<Rightarrow> FFTWGrid \<Rightarrow> bool" where
  "same_shape g g0 \<longleftrightarrow>
     N_dim g = N_dim g0 \<and> Nmesh g = Nmesh g0 \<and> Local_nx g = Local_nx g0
     \<and> n_extra_x_slices_left g = n_extra_x_slices_left g0
     \<and> n_extra_x_slices_right g = n_extra_x_slices_right g0"

definition ring_wf :: "FFTWGrid list \<Rightarrow> bool" where
  "ring_wf gs \<longleftrightarrow> gs \<noteq> [] \<and> list_all (\<lambda>g. grid_wf g \<and> same_shape g (hd gs)) gs"

text \<open>
  For the proofs: the storage \<open>raw\<close> with the reals at the offsets from \<open>lo\<close>
  to \<open>hi - 1\<close> replaced by those of \<open>src\<close> at the distance \<open>d\<close>; and the ring in
  which every process \<open>r\<close> has received such a window from process \<open>nb r\<close>.
\<close>

definition window_copy :: "real list \<Rightarrow> real list \<Rightarrow> int \<Rightarrow> int \<Rightarrow> int \<Rightarrow> real list" where
  "window_copy src raw lo hi d =
     map (\<lambda>t. if lo \<le> int t \<and> int t < hi then src ! nat (int t + d) else raw ! t)
       [0..<length raw]"

definition ring_windows ::
  "(nat \<Rightarrow> nat) \<Rightarrow> FFTWGrid list \<Rightarrow> FFTWGrid list \<Rightarrow> int \<Rightarrow> int \<Rightarrow> int \<Rightarrow> FFTWGrid list" where
  "ring_windows nb gs0 gs lo hi d =
     map (\<lambda>r. (gs ! r)\<lparr>fourier_grid_raw :=
                 window_copy (fourier_grid_raw (gs0 ! nb r)) (fourier_grid_raw (gs ! r)) lo hi d\<rparr>)
       [0..<length gs]"

text \<open>
  Slab \<open>s\<close> of a grid, for \<open>s\<close> from \<open>- n_extra_x_slices_left\<close> (the leftmost ghost
  slab) to \<open>Local_nx + n_extra_x_slices_right - 1\<close> (the rightmost one): the
  \<open>NmeshTotRealSlice\<close> reals that \<^verbatim>\<open>get_real_grid_by_slice(s)\<close> points to.
\<close>

definition get_real_grid_by_slice :: "FFTWGrid \<Rightarrow> int \<Rightarrow> int" where
  "get_real_grid_by_slice g slice =
     get_real_grid_left g + NmeshTotRealSlice g * (n_extra_x_slices_left g + slice)"

definition slab :: "FFTWGrid \<Rightarrow> int \<Rightarrow> real list" where
  "slab g s =
     take (nat (NmeshTotRealSlice g))
       (drop (nat (get_real_grid_by_slice g s)) (fourier_grid_raw g))"

section \<open>The FFT driver\<close>

text \<open>
  The FFT engine is external.  A transform is given by the contents it leaves
  at every real offset of the storage, which may depend on all the contents
  before; nothing else is assumed of it.  Without \<^verbatim>\<open>USE_FFTW\<close> there is no
  engine (\<open>None\<close>).
\<close>

type_synonym fft_transform = "real list \<Rightarrow> nat \<Rightarrow> real"

definition EXECUTE_FFT :: "fft_transform \<Rightarrow> real list \<Rightarrow> real list" where
  "EXECUTE_FFT plan raw = map (plan raw) [0..<length raw]"

definition save_right_copy :: "FFTWGrid \<Rightarrow> error + real list" where
  "save_right_copy g =
     (if 0 < n_extra_x_slices_right g
      then fold_err (\<lambda>i right_copy. bind_err (load_real (fourier_grid_raw g)
                                                  (get_real_grid_right g + i))
                                        (\<lambda>v. Inr (right_copy @ [v])))
             (map int [0..<nat (cdiv (Nmesh g) 2 + 1)]) []
      else Inr [])"

definition restore_right_copy :: "FFTWGrid \<Rightarrow> real list \<Rightarrow> real list \<Rightarrow> error + real list" where
  "restore_right_copy g right_copy raw =
     (if 0 < n_extra_x_slices_right g
      then fold_err (\<lambda>i raw. store_real raw (get_real_grid_right g + int i) (right_copy ! i))
             [0..<nat (cdiv (Nmesh g) 2 + 1)] raw
      else Inr raw)"

text \<open>\<^verbatim>\<open>fourier_grid[index] *= norm\<close>: both parts of the complex cell are scaled.\<close>

definition scale_fourier_cell :: "FFTWGrid \<Rightarrow> real \<Rightarrow> int \<Rightarrow> real list \<Rightarrow> error + real list" where
  "scale_fourier_cell g nrm index raw =
     (let c = get_fourier_grid g + index in
      bind_err (load_real raw (2 * c)) (\<lambda>re.
      bind_err (load_real raw (2 * c + 1)) (\<lambda>im.
      bind_err (store_real raw (2 * c) (re * nrm)) (\<lambda>raw.
      store_real raw (2 * c + 1) (im * nrm)))))"

definition get_fourier_range :: "FFTWGrid \<Rightarrow> int list" where
  "get_fourier_range g =
     map int [0..<nat (power_ll (Nmesh g) (N_dim g - 2) * (cdiv (Nmesh g) 2 + 1) * Local_nx g)]"

definition fftw_r2c :: "fft_transform option \<Rightarrow> FFTWGrid \<Rightarrow> error + FFTWGrid" where
  "fftw_r2c engine g =
     (case engine of
        None \<Rightarrow> Inl (AssertFailed
          ''[FFTWGrid::fftw_r2c] Compiled without FFTW support so cannot take Fourier transforms\<newline>'')
      | Some plan_r2c \<Rightarrow>
          bind_err (save_right_copy g) (\<lambda>right_copy.
          let raw1 = EXECUTE_FFT plan_r2c (fourier_grid_raw g);
              nrm = 1 / real_of_int (Nmesh g) ^ N_dim g
          in bind_err (fold_err (scale_fourier_cell g nrm) (get_fourier_range g) raw1) (\<lambda>raw2.
             bind_err (restore_right_copy g right_copy raw2) (\<lambda>raw3.
             Inr (g\<lparr>fourier_grid_raw := raw3, grid_is_in_real_space := False\<rparr>)))))"

definition fftw_c2r :: "fft_transform option \<Rightarrow> FFTWGrid \<Rightarrow> error + FFTWGrid" where
  "fftw_c2r engine g =
     (case engine of
        None \<Rightarrow> Inl (AssertFailed
          ''[FFTWGrid::fftw_c2r] Compiled without FFTW support so cannot take Fourier transforms\<newline>'')
      | Some plan_c2r \<Rightarrow>
          bind_err (save_right_copy g) (\<lambda>right_copy.
          let raw1 = EXECUTE_FFT plan_c2r (fourier_grid_raw g)
          in bind_err (restore_right_copy g right_copy raw1) (\<lambda>raw2.
             Inr (g\<lparr>fourier_grid_raw := raw2, grid_is_in_real_space := True\<rparr>))))"

section \<open>Friends-of-friends halos: \<^verbatim>\<open>FoFHalo<T, NDIM>\<close>\<close>

text \<open>
  The fields of the class, with the template parameter \<open>NDIM\<close> kept as a
  field.  The constructors leave the arrays \<open>pos\<close> and \<open>vel\<close> without a value;
  \<open>add\<close> sets them before it reads them, and they are zero here.
\<close>

record FoFHalo =
  NDIM :: nat
  halo_id :: nat
  np :: nat
  mass :: real
  pos :: "real list"
  vel :: "real list"
  vel2 :: real
  shared :: bool
  merged :: bool

definition FoFHalo_new :: "nat \<Rightarrow> nat \<Rightarrow> bool \<Rightarrow> FoFHalo" where
  "FoFHalo_new ndim id0 shared0 =
     \<lparr> NDIM = ndim, halo_id = id0, np = 0, mass = 0,
       pos = replicate ndim 0, vel = replicate ndim 0, vel2 = 0,
       shared = shared0, merged = False \<rparr>"

text \<open>The update of one component of the centre by the difference \<open>dx\<close> to it.\<close>

definition wrap_dx :: "bool \<Rightarrow> real \<Rightarrow> real" where
  "wrap_dx periodic dx =
     (let dx1 = (if periodic \<and> dx < - (1/2) then dx + 1 else dx)
      in if periodic \<and> 1/2 \<le> dx1 then dx1 - 1 else dx1)"

definition wrap_pos :: "bool \<Rightarrow> real \<Rightarrow> real" where
  "wrap_pos periodic x =
     (let x1 = (if periodic \<and> x < 0 then x + 1 else x)
      in if periodic \<and> 1 \<le> x1 then x1 - 1 else x1)"

definition FoFHalo_add :: "FoFHalo \<Rightarrow> particle \<Rightarrow> bool \<Rightarrow> FoFHalo" where
  "FoFHalo_add h particle periodic =
     (let m = GetMass particle;
          ps = get_pos particle;
          h0 = (if np h = 0
                then h\<lparr>pos := replicate (NDIM h) 0, vel := replicate (NDIM h) 0,
                       mass := 0, vel2 := 0\<rparr>
                else h);
          pos1 = map (\<lambda>idim. wrap_pos periodic
                        (pos h0 ! idim
                           + wrap_dx periodic (ps ! idim - pos h0 ! idim) * m / (mass h0 + m)))
                   [0..<NDIM h];
          vel1 = (case get_vel particle of
                    None \<Rightarrow> vel h0
                  | Some vs \<Rightarrow> map (\<lambda>idim. (vel h0 ! idim * mass h0 + vs ! idim * m)
                                              / (mass h0 + m)) [0..<NDIM h]);
          v2 = (case get_vel particle of
                  None \<Rightarrow> 0
                | Some vs \<Rightarrow> fold (\<lambda>idim v2. v2 + vel1 ! idim * vel1 ! idim) [0..<NDIM h] 0)
      in h0\<lparr>pos := pos1, vel := vel1,
            vel2 := (vel2 h0 * mass h0 + m * v2) / (mass h0 + m),
            np := np h0 + 1,
            mass := mass h0 + m\<rparr>)"

text \<open>
  \<open>merge\<close> updates the halo and empties the other one; the pair of both is
  returned.  The \<^verbatim>\<open>assert(false)\<close> for an empty receiving halo ends the run.
\<close>

definition FoFHalo_merge :: "FoFHalo \<Rightarrow> FoFHalo \<Rightarrow> bool \<Rightarrow> error + FoFHalo \<times> FoFHalo" where
  "FoFHalo_merge h g periodic =
     (if np g = 0 then Inr (h, g)
      else if np h = 0 then Inl (AssertFailed ''false'')
      else
       (let pos1 = map (\<lambda>idim. wrap_pos periodic
                          (pos h ! idim
                             + wrap_dx periodic (pos g ! idim - pos h ! idim) * mass g
                                 / (mass h + mass g)))
                     [0..<NDIM h];
            vel1 = map (\<lambda>idim. (vel h ! idim * mass h + vel g ! idim * mass g)
                                  / (mass h + mass g)) [0..<NDIM h]
        in Inr (h\<lparr>pos := pos1, vel := vel1,
                   vel2 := (vel2 h * mass h + vel2 g * mass g) / (mass h + mass g),
                   np := np h + np g\<rparr>,
                g\<lparr>np := 0\<rparr>)))"

section \<open>Bookkeeping for the proofs about the scatter\<close>

text \<open>
  For the proofs.  \<open>lane_mass st M raw k\<close> is what the storage cell \<open>k\<close> holds
  above the fill value \<open>- 1\<close>, counted on the \<open>M\<close> active lanes of a row of stride
  \<open>st\<close> only; \<open>slab_add n dst src raw\<close> is the storage after the loop
  \<^verbatim>\<open>for j < n: dst[j] += (src[j] + 1.0)\<close> on two ranges that do not overlap.
\<close>

definition lane_mass :: "int \<Rightarrow> int \<Rightarrow> real list \<Rightarrow> nat \<Rightarrow> real" where
  "lane_mass st M raw k = (if int k mod st < M then raw ! k + 1 else 0)"

definition slab_add :: "nat \<Rightarrow> nat \<Rightarrow> nat \<Rightarrow> real list \<Rightarrow> real list" where
  "slab_add n dst src raw =
     map (\<lambda>k. if dst \<le> k \<and> k < dst + n then raw ! k + (raw ! (k - dst + src) + 1) else raw ! k)
       [0..<length raw]"

text \<open>
  For the statement about positions on the upper edge of the box: the particle
  with every component that is equal to 1 on an axis \<open>k \<ge> 1\<close> replaced by 0.
\<close>

definition wrap_unit :: "particle \<Rightarrow> particle" where
  "wrap_unit p =
     Particle (map (\<lambda>k. if 1 \<le> k \<and> get_pos p ! k = 1 then 0 else get_pos p ! k)
                 [0..<length (get_pos p)])
       (get_vel p) (get_mass p)"

chapter \<open>Properties\<close>

section \<open>Arithmetic of the source language\<close>

lemma cdiv_nonneg: "0 \<le> a \<Longrightarrow> 0 < b \<Longrightarrow> cdiv a b = a div b"
  by (cases "a = 0") (auto simp: cdiv_def)

lemma cmod_nonneg: "0 \<le> a \<Longrightarrow> 0 < b \<Longrightarrow> cmod a b = a mod b"
  by (simp add: cmod_def cdiv_nonneg minus_mult_div_eq_mod)

lemma to_int32_id: "- 2147483648 \<le> k \<Longrightarrow> k < 2147483648 \<Longrightarrow> to_int32 k = k"
  by (simp add: to_int32_def)

lemma int_add_id: "- 2147483648 \<le> a + b \<Longrightarrow> a + b < 2147483648 \<Longrightarrow> int_add a b = a + b"
  by (simp add: int_add_def to_int32_id)

lemma int_mul_id: "- 2147483648 \<le> a * b \<Longrightarrow> a * b < 2147483648 \<Longrightarrow> int_mul a b = a * b"
  by (simp add: int_mul_def to_int32_id)

lemma div_step: "1 \<le> (M::int) \<Longrightarrow> 0 \<le> n \<Longrightarrow> (n + 1) div M = n div M + (if (n + 1) mod M = 0 then 1 else 0)"
proof -
  assume M: "1 \<le> M" and n: "0 \<le> n"
  define q where "q = n div M"
  define r where "r = n mod M"
  have eq: "n = M * q + r" unfolding q_def r_def by simp
  have r: "0 \<le> r" "r < M" using M by (auto simp: r_def)
  show ?thesis
  proof (cases "r = M - 1")
    case True
    then have e: "n + 1 = M * (q + 1) + 0" using eq by (simp add: algebra_simps)
    have "(n + 1) div M = q + 1" by (rule int_div_pos_eq[OF e]) (use M in auto)
    moreover have "(n + 1) mod M = 0" by (rule int_mod_pos_eq[OF e]) (use M in auto)
    ultimately show ?thesis by (simp add: q_def)
  next
    case False
    then have lt: "r + 1 < M" using r by simp
    have e: "n + 1 = M * q + (r + 1)" using eq by simp
    have "(n + 1) div M = q" by (rule int_div_pos_eq[OF e]) (use r lt in auto)
    moreover have "(n + 1) mod M = r + 1" by (rule int_mod_pos_eq[OF e]) (use r lt in auto)
    ultimately show ?thesis using r by (simp add: q_def)
  qed
qed

section \<open>Loops that may fail\<close>

lemma fold_err_append:
  "fold_err f (xs @ ys) s = bind_err (fold_err f xs s) (fold_err f ys)"
  by (induction xs arbitrary: s) (simp_all add: bind_err_def split: sum.splits)

lemma fold_err_inv:
  assumes "\<And>x s. x \<in> set xs \<Longrightarrow> P s \<Longrightarrow> \<exists>s'. f x s = Inr s' \<and> P s'" "P s"
  shows "\<exists>s'. fold_err f xs s = Inr s' \<and> P s'"
  using assms
proof (induction xs arbitrary: s)
  case Nil
  then show ?case by simp
next
  case (Cons x xs)
  obtain s1 where s1: "f x s = Inr s1" "P s1" using Cons.prems(1)[of x s] Cons.prems(2) by auto
  have "\<exists>s'. fold_err f xs s1 = Inr s' \<and> P s'"
    by (rule Cons.IH) (use Cons.prems(1) s1 in auto)
  then show ?case using s1 by simp
qed

lemma load_loop:
  assumes "\<And>i. i \<in> set xs \<Longrightarrow> 0 \<le> off + i \<and> off + i < int (length raw)"
  shows "fold_err (\<lambda>i acc. bind_err (load_real raw (off + i)) (\<lambda>v. Inr (acc @ [v]))) xs acc
         = Inr (acc @ map (\<lambda>i. raw ! nat (off + i)) xs)"
  using assms by (induction xs arbitrary: acc) (simp_all add: bind_err_def load_real_def)

lemma store_loop:
  assumes "0 \<le> off" "off + int k \<le> int (length raw)"
  shows "\<exists>raw'. fold_err (\<lambda>i raw. store_real raw (off + int i) (rc ! i)) [0..<k] raw = Inr raw'
           \<and> length raw' = length raw
           \<and> (\<forall>i<k. raw' ! nat (off + int i) = rc ! i)"
  using assms
proof (induction k)
  case 0
  then show ?case by simp
next
  case (Suc k)
  obtain r1 where r1: "fold_err (\<lambda>i raw. store_real raw (off + int i) (rc ! i)) [0..<k] raw = Inr r1"
      "length r1 = length raw" "\<forall>i<k. r1 ! nat (off + int i) = rc ! i"
    using Suc by auto
  let ?r2 = "r1[nat (off + int k) := rc ! k]"
  have st: "store_real r1 (off + int k) (rc ! k) = Inr ?r2"
    using Suc.prems r1(2) by (simp add: store_real_def)
  have "\<forall>i<Suc k. ?r2 ! nat (off + int i) = rc ! i"
  proof (intro allI impI)
    fix i assume i: "i < Suc k"
    show "?r2 ! nat (off + int i) = rc ! i"
    proof (cases "i = k")
      case True
      then show ?thesis using Suc.prems r1(2) by simp
    next
      case False
      then have "nat (off + int i) \<noteq> nat (off + int k)" using Suc.prems(1) by simp
      then show ?thesis using r1(3) i False by simp
    qed
  qed
  then show ?case using r1 st by (simp add: fold_err_append bind_err_def)
qed

lemma load_real_err: "load_real raw off = Inl e \<Longrightarrow> e = UndefinedBehaviour"
  by (simp add: load_real_def split: if_splits)

lemma store_real_err: "store_real raw off v = Inl e \<Longrightarrow> e = UndefinedBehaviour"
  by (simp add: store_real_def split: if_splits)

lemma bind_err_Inl:
  "bind_err m f = Inl e \<Longrightarrow> m = Inl e \<or> (\<exists>x. m = Inr x \<and> f x = Inl e)"
  by (cases m) (simp_all add: bind_err_def)

lemma fold_err_err:
  assumes "fold_err f xs s = Inl e" "\<And>x s e. f x s = Inl e \<Longrightarrow> e = UndefinedBehaviour"
  shows "e = UndefinedBehaviour"
  using assms
proof (induction xs arbitrary: s)
  case Nil
  then show ?case by simp
next
  case (Cons x xs)
  show ?case
  proof (cases "f x s")
    case (Inl a)
    then show ?thesis using Cons.prems by auto
  next
    case (Inr s')
    then show ?thesis using Cons.prems Cons.IH[of s'] by auto
  qed
qed

section \<open>The real-range iterator\<close>

lemma pad_of_range: "1 \<le> pad_of M \<and> pad_of M \<le> 2"
  by (simp add: pad_of_def)

lemma pad_of_stride: "1 \<le> M \<Longrightarrow> pad_of M = 2 * (M div 2 + 1) - M"
  unfolding pad_of_def by presburger

lemma real_index_mono:
  assumes "1 \<le> M" "0 \<le> a" "a \<le> b"
  shows "a + pad_of M * (a div M) \<le> b + pad_of M * (b div M)"
proof -
  have "a div M \<le> b div M" using assms by (intro zdiv_mono1) auto
  then have "pad_of M * (a div M) \<le> pad_of M * (b div M)"
    using pad_of_range[of M] by (intro mult_left_mono) auto
  then show ?thesis using assms(3) by linarith
qed

lemma to_int32_add_left: "to_int32 (to_int32 a + b) = to_int32 (a + b)"
proof -
  have "(to_int32 a + b + 2147483648) mod 4294967296
        = ((a + 2147483648) mod 4294967296 + b) mod 4294967296"
    by (simp add: to_int32_def)
  also have "\<dots> = (a + 2147483648 + b) mod 4294967296" by (rule mod_add_left_eq)
  also have "a + 2147483648 + b = a + b + 2147483648" by simp
  finally have e: "(to_int32 a + b + 2147483648) mod 4294967296
                   = (a + b + 2147483648) mod 4294967296" .
  show ?thesis
    unfolding to_int32_def[of "to_int32 a + b"] e to_int32_def[of "a + b"] by (rule refl)
qed

lemma int_add_wrapped: "int_add (to_int32 a) b = to_int32 (a + b)"
  by (simp add: int_add_def to_int32_add_left)

text \<open>
  The iterator after \<open>n\<close> increments, as long as the counter \<open>n\<close> itself fits:
  the index it holds is \<open>n + pad * (n div M)\<close> wrapped to 32 bits.
\<close>

lemma iter_n_wrap:
  assumes "1 \<le> M"
  shows "int n < 2147483648 \<Longrightarrow>
     (it_incr ^^ n) (LoopIteratorReal_new 0 M) =
     \<lparr> it_index = int n, it_real_index = to_int32 (int n + pad_of M * (int n div M)),
       it_Nmesh = M, it_odd = M mod 2 \<rparr>"
proof (induction n)
  case 0
  then show ?case using assms
    by (simp add: LoopIteratorReal_new_def cdiv_nonneg cmod_nonneg int_add_def int_mul_def to_int32_def)
next
  case (Suc n)
  define r where "r = int n + pad_of M * (int n div M)"
  have ds: "(int n + 1) div M = int n div M + (if (int n + 1) mod M = 0 then 1 else 0)"
    using div_step[OF assms, of "int n"] by simp
  have nb: "int n + 1 < 2147483648" using Suc.prems by simp
  have ih: "(it_incr ^^ n) (LoopIteratorReal_new 0 M) =
     \<lparr> it_index = int n, it_real_index = to_int32 r, it_Nmesh = M, it_odd = M mod 2 \<rparr>"
    unfolding r_def by (rule Suc.IH) (use nb in simp)
  have i1: "int_add (int n) 1 = int n + 1" using nb by (intro int_add_id) auto
  have po: "(if M mod 2 \<noteq> 0 then 1 else 2) = pad_of M" by (simp add: pad_of_def)
  have cm: "cmod (int n + 1) M = (int n + 1) mod M" using assms by (simp add: cmod_nonneg)
  have st: "(it_incr ^^ Suc n) (LoopIteratorReal_new 0 M)
            = it_incr \<lparr> it_index = int n, it_real_index = to_int32 r, it_Nmesh = M, it_odd = M mod 2 \<rparr>"
    by (simp add: ih)
  have inc: "it_incr \<lparr> it_index = int n, it_real_index = to_int32 r, it_Nmesh = M, it_odd = M mod 2 \<rparr>
     = \<lparr> it_index = int_add (int n) 1,
         it_real_index = int_add (if cmod (int_add (int n) 1) M = 0
                                  then int_add (to_int32 r) (if M mod 2 \<noteq> 0 then 1 else 2)
                                  else to_int32 r) 1,
         it_Nmesh = M, it_odd = M mod 2 \<rparr>"
    by (simp add: it_incr_def Let_def)
  have tg: "int (Suc n) + pad_of M * (int (Suc n) div M)
            = r + (if (int n + 1) mod M = 0 then pad_of M else 0) + 1"
    using ds by (simp add: r_def add.commute algebra_simps)
  show ?case
    unfolding st tg inc po i1 cm
    by (simp add: int_add_wrapped)
qed

lemma iter_n:
  assumes "1 \<le> M" and b: "int n + pad_of M * (int n div M) < 2147483648"
  shows "(it_incr ^^ n) (LoopIteratorReal_new 0 M) =
     \<lparr> it_index = int n, it_real_index = int n + pad_of M * (int n div M), it_Nmesh = M, it_odd = M mod 2 \<rparr>"
proof -
  have d0: "0 \<le> int n div M" using assms(1) by (simp add: pos_imp_zdiv_nonneg_iff)
  have "0 \<le> pad_of M * (int n div M)" using pad_of_range[of M] d0 by simp
  then have r0: "0 \<le> int n + pad_of M * (int n div M)" and nb: "int n < 2147483648"
    using b by simp_all
  have "to_int32 (int n + pad_of M * (int n div M)) = int n + pad_of M * (int n div M)"
    using r0 b by (intro to_int32_id) auto
  then show ?thesis using iter_n_wrap[OF assms(1) nb] by simp
qed

lemma range_loop_run:
  assumes "1 \<le> M" and T: "T + pad_of M * (T div M) < 2147483648"
  shows "int n + int k = T \<Longrightarrow>
     range_loop ((it_incr ^^ n) (LoopIteratorReal_new 0 M)) (LoopIteratorReal_new T M) acc =
       Some (acc @ map (\<lambda>i. int i + pad_of M * (int i div M)) [n..<n + k])"
proof (induction k arbitrary: n acc)
  case 0
  have "int n + pad_of M * (int n div M) < 2147483648" using T 0 by simp
  then have idx: "it_index ((it_incr ^^ n) (LoopIteratorReal_new 0 M)) = int n"
    by (simp add: iter_n[OF assms(1)])
  have e: "it_index (LoopIteratorReal_new T M) = T"
    by (simp add: LoopIteratorReal_new_def)
  from 0 show ?case
    by (subst range_loop.simps) (simp add: idx e it_neq_def)
next
  case (Suc k)
  have "int n + pad_of M * (int n div M) \<le> T + pad_of M * (T div M)"
    using Suc.prems by (intro real_index_mono[OF assms(1)]) auto
  then have bn: "int n + pad_of M * (int n div M) < 2147483648" using T by simp
  have idx: "it_index ((it_incr ^^ n) (LoopIteratorReal_new 0 M)) = int n"
    by (simp add: iter_n[OF assms(1) bn])
  have der: "it_deref ((it_incr ^^ n) (LoopIteratorReal_new 0 M)) = int n + pad_of M * (int n div M)"
    by (simp add: iter_n[OF assms(1) bn] it_deref_def)
  have e: "it_index (LoopIteratorReal_new T M) = T"
    by (simp add: LoopIteratorReal_new_def)
  have "range_loop ((it_incr ^^ n) (LoopIteratorReal_new 0 M)) (LoopIteratorReal_new T M) acc =
        range_loop ((it_incr ^^ Suc n) (LoopIteratorReal_new 0 M)) (LoopIteratorReal_new T M)
           (acc @ [int n + pad_of M * (int n div M)])"
    using Suc.prems
    by (subst range_loop.simps) (simp add: idx e der it_neq_def)
  also have "\<dots> = Some ((acc @ [int n + pad_of M * (int n div M)]) @ map (\<lambda>i. int i + pad_of M * (int i div M)) [Suc n..<Suc n + k])"
    using Suc.prems by (intro Suc.IH) simp
  finally show ?case by (subst upt_rec) simp
qed

text \<open>
  \<^bold>\<open>C4\<close>, as amended.  For every mesh size \<open>M \<ge> 1\<close>, the value the iterator of
  \<^verbatim>\<open>RealRange(0, T, M)\<close> holds after \<open>n\<close> increments of \<open>begin()\<close> is
  \<open>n + pad * (n div M)\<close>, where \<open>pad\<close> is 2 for even \<open>M\<close> and 1 for odd \<open>M\<close>, as
  long as that value is below \<open>2\<^sup>3\<^sup>1\<close> (the iterator holds it in an \<^verbatim>\<open>int\<close>): the
  iterator skips the \<open>2 * (M div 2 + 1) - M\<close> padding lanes at the end of each
  row of \<open>M\<close> cells, so that consecutive rows start at the multiples of the row
  stride \<open>2 * (M div 2 + 1)\<close>.
\<close>

theorem real_range_nth_value:
  assumes "1 \<le> M" and "int n + (if even M then 2 else 1) * (int n div M) < 2147483648"
  shows "it_deref ((it_incr ^^ n) (RealRange_begin \<lparr>rr_from = 0, rr_to = T, rr_Nmesh = M\<rparr>))
           = int n + (if even M then 2 else 1) * (int n div M)
       \<and> (if even M then 2 else 1) = 2 * (M div 2 + 1) - M"
proof -
  have p: "pad_of M = (if even M then 2 else 1)" by (auto simp: pad_of_def even_iff_mod_2_eq_zero)
  have b: "int n + pad_of M * (int n div M) < 2147483648" using assms(2) p by simp
  show ?thesis
    using pad_of_stride[OF assms(1)] p
    by (simp add: RealRange_begin_def iter_n[OF assms(1) b] it_deref_def)
qed

theorem real_range_nth_value_witness:
  "(1::int) \<le> 3 \<and> int 3 + (if even (3::int) then 2 else 1) * (int 3 div 3) < 2147483648
   \<and> it_deref ((it_incr ^^ 3) (RealRange_begin \<lparr>rr_from = 0, rr_to = 9, rr_Nmesh = 3\<rparr>)) = 4"
  using real_range_nth_value[of 3 3 9] by simp

text \<open>
  The claim as first stated, \<open>n + 2 * (n div M)\<close> for every \<open>M\<close> and \<open>n\<close>, fails for
  odd \<open>M\<close>: with \<open>M = 3\<close> the value after three increments is 4, the start of the
  second row of stride 4, and not 5.  It also fails for an even \<open>M\<close> once the
  value leaves the 32 bits of the \<^verbatim>\<open>int\<close> that holds it: on the mesh of \<open>1290\<^sup>3\<close>
  cells the range ends at \<open>2146689000\<close>, which fits, but the last index,
  \<open>2150017197\<close>, does not, and the iterator holds \<open>- 2144950099\<close>.
\<close>

theorem real_range_odd_mesh_counterexample:
  "it_deref ((it_incr ^^ 3) (RealRange_begin \<lparr>rr_from = 0, rr_to = 9, rr_Nmesh = 3\<rparr>)) = 4
   \<and> (3::int) + 2 * (3 div 3) = 5
   \<and> it_deref ((it_incr ^^ 2146688999)
         (RealRange_begin \<lparr>rr_from = 0, rr_to = 2146689000, rr_Nmesh = 1290\<rparr>)) = - 2144950099
   \<and> (2146688999::int) + 2 * (2146688999 div 1290) = 2150017197"
proof -
  have odd: "it_deref ((it_incr ^^ 3) (RealRange_begin \<lparr>rr_from = 0, rr_to = 9, rr_Nmesh = 3\<rparr>)) = 4"
    by (simp add: RealRange_begin_def LoopIteratorReal_new_def it_incr_def it_deref_def cdiv_def
        cmod_def int_add_def int_mul_def to_int32_def eval_nat_numeral)
  have "it_deref ((it_incr ^^ 2146688999) (LoopIteratorReal_new 0 1290))
        = to_int32 (int 2146688999 + pad_of 1290 * (int 2146688999 div 1290))"
    by (subst iter_n_wrap) (simp_all add: it_deref_def)
  also have "\<dots> = - 2144950099" by (simp add: pad_of_def to_int32_def)
  finally have wrap: "it_deref ((it_incr ^^ 2146688999)
         (RealRange_begin \<lparr>rr_from = 0, rr_to = 2146689000, rr_Nmesh = 1290\<rparr>)) = - 2144950099"
    by (simp add: RealRange_begin_def)
  show ?thesis using odd wrap by simp
qed

section \<open>The grids of the constructor\<close>

lemma fold_mult_const:
  "(\<And>i. i \<in> set xs \<Longrightarrow> f i = (M::int)) \<Longrightarrow> fold (\<lambda>i tot. tot * f i) xs a = a * M ^ length xs"
  by (induction xs arbitrary: a) (simp_all add: algebra_simps)

lemma ntotcomplex_new:
  assumes "1 \<le> N"
  shows "fold (\<lambda>i tot. tot * (if i = N - 1 then h else M)) [0..<N] (1::int) = M ^ (N - 1) * h"
proof -
  obtain n where N: "N = Suc n" using assms by (cases N) auto
  have "fold (\<lambda>i tot. tot * (if i = n then h else M)) [0..<n] (1::int) = 1 * M ^ length [0..<n]"
    by (rule fold_mult_const) auto
  then show ?thesis by (simp add: N)
qed

lemma grid_wf_new:
  assumes "2 \<le> N" "1 \<le> M" "0 \<le> nl" "0 \<le> nr"
  shows "grid_wf (FFTWGrid_new N M nl nr)"
proof -
  define h where "h = M div 2 + 1"
  have cd: "cdiv M 2 + 1 = h" using assms(2) by (simp add: cdiv_nonneg h_def)
  have tot: "fold (\<lambda>i tot. tot * (if i = N - 1 then h else M)) [0..<N] 1 = M ^ (N - 1) * h"
    by (rule ntotcomplex_new) (use assms(1) in simp)
  have pw: "M ^ (N - 1) = M * M ^ (N - 2)"
    using assms(1) by (metis Suc_diff_Suc Suc_1 diff_Suc_eq_diff_pred less_eq_Suc_le power_Suc numeral_2_eq_2)
  have pw2: "M ^ (N - Suc 0) = M * M ^ (N - 2)" using pw by simp
  have h0: "0 \<le> h * M ^ (N - 2)" using assms(2) by (simp add: h_def)
  have ra: "0 \<le> M * (h * M ^ (N - 2)) + h * M ^ (N - 2) * (nl + nr)"
    using assms h0 by simp
  show ?thesis
    unfolding grid_wf_def FFTWGrid_new_def FFTWGrid_fields_def Let_def power_ll_def cd tot pw
    using assms ra by (simp add: h_def pw2 mult.assoc mult.left_commute)
qed

section \<open>Index algebra\<close>

lemma fold_index_foldl:
  "fold (\<lambda>idim index. index * M + coord ! idim) is x =
   foldl (\<lambda>acc c. acc * (M::int) + c) x (map ((!) coord) is)"
  by (induction "is" arbitrary: x) simp_all

lemma middle_coords:
  assumes "length coord = N" "2 \<le> N"
  shows "map ((!) coord) [1..<N - 1] = butlast (tl coord)"
proof (rule nth_equalityI)
  show "length (map ((!) coord) [1..<N - 1]) = length (butlast (tl coord))"
    using assms by simp
next
  fix i assume "i < length (map ((!) coord) [1..<N - 1])"
  then have i: "i < N - 2" by simp
  then show "map ((!) coord) [1..<N - 1] ! i = butlast (tl coord) ! i"
    using assms by (simp add: nth_butlast nth_tl)
qed

lemma foldl_shift:
  "foldl (\<lambda>acc c. acc * (M::int) + c) (a + b) cs =
   foldl (\<lambda>acc c. acc * M + c) a cs + b * M ^ length cs"
proof (induction cs arbitrary: a b)
  case Nil
  then show ?case by simp
next
  case (Cons c cs)
  have "(a + b) * M + c = (a * M + c) + b * M" by (simp add: algebra_simps)
  then show ?case using Cons.IH[of "a * M + c" "b * M"] by (simp add: algebra_simps)
qed

lemma foldl_bounds:
  assumes "0 \<le> a" "a < A" "\<And>c. c \<in> set cs \<Longrightarrow> 0 \<le> c \<and> c < (M::int)"
  shows "0 \<le> foldl (\<lambda>acc c. acc * M + c) a cs \<and>
         foldl (\<lambda>acc c. acc * M + c) a cs < A * M ^ length cs"
  using assms
proof (induction cs arbitrary: a A)
  case Nil
  then show ?case by simp
next
  case (Cons c cs)
  have c: "0 \<le> c" "c < M" using Cons.prems(3)[of c] by auto
  have "(a + 1) * M \<le> A * M" using Cons.prems(1,2) c by (intro mult_right_mono) auto
  then have up: "a * M + c < A * M" using c by (simp add: algebra_simps)
  have lo: "0 \<le> a * M + c" using Cons.prems(1) c by simp
  have "0 \<le> foldl (\<lambda>acc c. acc * M + c) (a * M + c) cs \<and>
        foldl (\<lambda>acc c. acc * M + c) (a * M + c) cs < (A * M) * M ^ length cs"
    by (rule Cons.IH[OF lo up]) (use Cons.prems(3) in auto)
  then show ?case by (simp add: algebra_simps)
qed

lemma stride_gt: "0 \<le> (M::int) \<Longrightarrow> M < 2 * (M div 2 + 1)"
  by presburger

lemma index_2d_in_range:
  assumes h: "1 \<le> h" and A: "1 \<le> A" and i: "- A \<le> i" "i < A" and j: "0 \<le> j" "j < 2 * h"
    and lim: "2 * h * A < 2147483648"
  shows "int_add (int_mul (int_mul i 2) (int_add (h - 1) 1)) j = i * 2 * h + j"
proof -
  have f1: "- (A * h) \<le> i * h" using i(1) h mult_right_mono[of "- A" i h] by simp
  have "(i + 1) * h \<le> A * h" using i(2) h by (intro mult_right_mono) auto
  then have f2: "i * h + h \<le> A * h" by (simp add: algebra_simps)
  have "A * 1 \<le> A * h" using h A by (intro mult_left_mono) auto
  then have f3: "A \<le> A * h" by simp
  have l: "2 * (A * h) < 2147483648" using lim by (simp add: algebra_simps)
  have m1: "int_mul i 2 = i * 2" using i f3 l by (intro int_mul_id; linarith)
  have "int_add (h - 1) 1 = h - 1 + 1" using h f1 f2 l by (intro int_add_id; linarith)
  then have a1: "int_add (h - 1) 1 = h" by simp
  have e: "i * 2 * h = 2 * (i * h)" by simp
  have m2: "int_mul (i * 2) h = i * 2 * h"
    using f1 f2 l h by (intro int_mul_id; simp only: e; linarith)
  have a2: "int_add (i * 2 * h) j = i * 2 * h + j"
    using f1 f2 l h j by (intro int_add_id; simp only: e; linarith)
  show ?thesis by (simp only: m1 a1 m2 a2)
qed

lemma index_3d_in_range:
  assumes h: "1 \<le> h" and M: "1 \<le> M" and A: "1 \<le> A" and i: "- A \<le> i" "i < A"
    and j: "0 \<le> j" "j < M" and k: "0 \<le> k" "k < 2 * h"
    and lim: "2 * h * (M * A) < 2147483648"
  shows "int_add (int_mul (int_mul (int_add (int_mul M i) j) 2) (int_add (h - 1) 1)) k
         = (M * i + j) * 2 * h + k"
proof -
  have f1: "- (M * A) \<le> M * i" using i(1) M mult_left_mono[of "- A" i M] by simp
  have "M * (i + 1) \<le> M * A" using i(2) M by (intro mult_left_mono) auto
  then have f2: "M * i + M \<le> M * A" by (simp add: algebra_simps)
  have "1 * 1 \<le> M * A" using M A by (intro mult_mono) auto
  then have MA: "1 \<le> M * A" by simp
  have "1 * (M * A) \<le> (2 * h) * (M * A)" using h MA by (intro mult_right_mono) auto
  then have l: "M * A < 2147483648" using lim by linarith
  have m0: "int_mul M i = M * i" using f1 f2 l M by (intro int_mul_id; linarith)
  have a0: "int_add (M * i) j = M * i + j" using f1 f2 l j by (intro int_add_id; linarith)
  have u: "- (M * A) \<le> M * i + j" "M * i + j < M * A" using f1 f2 j by auto
  show ?thesis
    unfolding m0 a0 by (rule index_2d_in_range[OF h MA u k lim])
qed

lemma wf_alloc:
  assumes wf: "grid_wf g"
  shows "NmeshTotRealAlloc g = 2 * (Nmesh g div 2 + 1) * (Nmesh g ^ (N_dim g - 2)
           * (n_extra_x_slices_left g + Local_nx g + n_extra_x_slices_right g))"
  using wf by (simp add: grid_wf_def algebra_simps)

lemma get_index_real_foldl:
  assumes wf: "grid_wf g" and len: "length coord = N_dim g"
    and c0: "- n_extra_x_slices_left g \<le> coord ! 0"
            "coord ! 0 < Local_nx g + n_extra_x_slices_right g"
    and ck: "\<And>k. 1 \<le> k \<Longrightarrow> k < N_dim g \<Longrightarrow> 0 \<le> coord ! k \<and> coord ! k < Nmesh g"
    and lim: "NmeshTotRealAlloc g < 2147483648"
  shows "get_index_real g coord =
     foldl (\<lambda>acc c. acc * Nmesh g + c) (hd coord) (butlast (tl coord)) * (2 * (Nmesh g div 2 + 1))
       + last coord"
proof -
  define h where "h = Nmesh g div 2 + 1"
  define A where "A = n_extra_x_slices_left g + Local_nx g + n_extra_x_slices_right g"
  have N: "2 \<le> N_dim g" and M: "1 \<le> Nmesh g" and g0: "0 \<le> n_extra_x_slices_left g"
    "0 \<le> n_extra_x_slices_right g" "1 \<le> Local_nx g"
    using wf by (auto simp: grid_wf_def)
  have h1: "1 \<le> h" using M by (simp add: h_def)
  have A1: "1 \<le> A" using g0 by (simp add: A_def)
  have iA: "- A \<le> coord ! 0" "coord ! 0 < A" using c0 g0 by (auto simp: A_def)
  have al: "2 * h * (Nmesh g ^ (N_dim g - 2) * A) < 2147483648"
    using lim unfolding wf_alloc[OF wf] h_def A_def .
  have Mh: "Nmesh g < 2 * h" unfolding h_def using M by presburger
  have ne: "coord \<noteq> []" using len N by auto
  have mid: "map ((!) coord) [1..<N_dim g - 1] = butlast (tl coord)"
    by (rule middle_coords[OF len N])
  have hd: "coord ! 0 = hd coord" using ne by (simp add: hd_conv_nth)
  have la: "coord ! (N_dim g - 1) = last coord" using ne len by (simp add: last_conv_nth)
  have cd: "cdiv (Nmesh g) 2 = h - 1" using M by (simp add: cdiv_nonneg h_def)
  consider "N_dim g = 2" | "N_dim g = 3" | "N_dim g \<noteq> 2" "N_dim g \<noteq> 3" by blast
  then show ?thesis
  proof cases
    case 1
    have b: "butlast (tl coord) = []" using mid 1 by simp
    have l1: "coord ! 1 = last coord" using la 1 by simp
    have j: "0 \<le> coord ! 1" "coord ! 1 < 2 * h" using ck[of 1] 1 Mh by auto
    have al2: "2 * h * A < 2147483648" using al 1 by simp
    have "get_index_real g coord = get_index_real_2d g (coord ! 0) (coord ! 1)"
      using 1 by (simp add: get_index_real_def)
    also have "\<dots> = coord ! 0 * 2 * h + coord ! 1"
      unfolding get_index_real_2d_def cd by (rule index_2d_in_range[OF h1 A1 iA j al2])
    finally show ?thesis unfolding b hd l1 h_def by (simp add: algebra_simps)
  next
    case 2
    have b: "butlast (tl coord) = [coord ! 1]" using mid[symmetric] 2 by (simp add: upt_rec)
    have l2: "coord ! 2 = last coord" using la 2 by simp
    have j: "0 \<le> coord ! 1" "coord ! 1 < Nmesh g" using ck[of 1] 2 by auto
    have k: "0 \<le> coord ! 2" "coord ! 2 < 2 * h" using ck[of 2] 2 Mh by auto
    have al3: "2 * h * (Nmesh g * A) < 2147483648" using al 2 by simp
    have "get_index_real g coord = get_index_real_3d g (coord ! 0) (coord ! 1) (coord ! 2)"
      using 2 by (simp add: get_index_real_def)
    also have "\<dots> = (Nmesh g * coord ! 0 + coord ! 1) * 2 * h + coord ! 2"
      unfolding get_index_real_3d_def cd by (rule index_3d_in_range[OF h1 M A1 iA j k al3])
    finally show ?thesis unfolding b hd l2 h_def by (simp add: algebra_simps)
  next
    case 3
    have cd': "cdiv (Nmesh g) 2 = Nmesh g div 2" using M by (simp add: cdiv_nonneg)
    show ?thesis using 3 hd la mid
      by (simp add: get_index_real_def Let_def fold_index_foldl cd')
  qed
qed

lemma real_offset_spec:
  assumes wf: "grid_wf g" and len: "length coord = N_dim g"
    and c0: "- n_extra_x_slices_left g \<le> coord ! 0"
            "coord ! 0 < Local_nx g + n_extra_x_slices_right g"
    and ck: "\<And>k. 1 \<le> k \<Longrightarrow> k < N_dim g \<Longrightarrow> 0 \<le> coord ! k \<and> coord ! k < Nmesh g"
    and lim: "NmeshTotRealAlloc g < 2147483648"
  shows "real_offset g coord = idx_real_spec (Nmesh g) (n_extra_x_slices_left g) coord"
proof -
  have N: "2 \<le> N_dim g" and M: "1 \<le> Nmesh g" using wf by (auto simp: grid_wf_def)
  have S: "NmeshTotRealSlice g = 2 * ((Nmesh g div 2 + 1) * Nmesh g ^ (N_dim g - 2))"
    using wf by (simp add: grid_wf_def)
  have l: "length (butlast (tl coord)) = N_dim g - 2" using len by simp
  have gi: "get_index_real g coord =
     foldl (\<lambda>acc c. acc * Nmesh g + c) (hd coord) (butlast (tl coord)) * (2 * (Nmesh g div 2 + 1))
       + last coord"
    by (rule get_index_real_foldl[OF wf len c0 ck lim])
  show ?thesis
    unfolding real_offset_def get_real_grid_def get_real_grid_left_def idx_real_spec_def
      gi foldl_shift l S
    by (simp add: algebra_simps)
qed

lemma idx_real_spec_bounds:
  assumes wf: "grid_wf g" and len: "length coord = N_dim g"
    and c0: "- n_extra_x_slices_left g \<le> coord ! 0"
            "coord ! 0 < Local_nx g + n_extra_x_slices_right g"
    and ck: "\<And>k. 1 \<le> k \<Longrightarrow> k < N_dim g \<Longrightarrow> 0 \<le> coord ! k \<and> coord ! k < Nmesh g"
  shows "0 \<le> idx_real_spec (Nmesh g) (n_extra_x_slices_left g) coord"
    and "idx_real_spec (Nmesh g) (n_extra_x_slices_left g) coord < int (length (fourier_grid_raw g))"
    and "idx_real_spec (Nmesh g) (n_extra_x_slices_left g) coord mod (2 * (Nmesh g div 2 + 1)) = last coord"
    and "last coord < Nmesh g"
proof -
  define M where "M = Nmesh g"
  define gL where "gL = n_extra_x_slices_left g"
  define A where "A = gL + Local_nx g + n_extra_x_slices_right g"
  define st where "st = 2 * (M div 2 + 1)"
  define F where "F = foldl (\<lambda>acc c. acc * M + c) (hd coord + gL) (butlast (tl coord))"
  have N: "2 \<le> N_dim g" and M: "1 \<le> M" using wf by (auto simp: grid_wf_def M_def)
  have ne: "coord \<noteq> []" using len N by auto
  have hd: "hd coord = coord ! 0" using ne by (simp add: hd_conv_nth)
  have la: "last coord = coord ! (N_dim g - 1)" using ne len by (simp add: last_conv_nth)
  have lab: "0 \<le> last coord" "last coord < M" using ck[of "N_dim g - 1"] N la by (auto simp: M_def)
  have mid: "butlast (tl coord) = map ((!) coord) [1..<N_dim g - 1]"
    by (rule middle_coords[OF len N, symmetric])
  have midb: "\<And>c. c \<in> set (butlast (tl coord)) \<Longrightarrow> 0 \<le> c \<and> c < M"
    unfolding mid using ck by (auto simp: M_def)
  have l: "length (butlast (tl coord)) = N_dim g - 2" using len by simp
  have Fb: "0 \<le> F \<and> F < A * M ^ length (butlast (tl coord))"
    unfolding F_def by (rule foldl_bounds) (use c0 hd midb in \<open>auto simp: A_def gL_def\<close>)
  have stM: "M < st" unfolding st_def using M by presburger
  have idx: "idx_real_spec (Nmesh g) (n_extra_x_slices_left g) coord = F * st + last coord"
    by (simp add: idx_real_spec_def F_def st_def M_def gL_def)
  have lenraw: "int (length (fourier_grid_raw g)) = A * M ^ (N_dim g - 2) * st"
    using wf by (simp add: grid_wf_def A_def M_def st_def gL_def algebra_simps)
  show "0 \<le> idx_real_spec (Nmesh g) (n_extra_x_slices_left g) coord"
    unfolding idx using Fb lab stM M by simp
  have "(F + 1) * st \<le> (A * M ^ (N_dim g - 2)) * st"
    using Fb l stM M by (intro mult_right_mono) auto
  then show "idx_real_spec (Nmesh g) (n_extra_x_slices_left g) coord < int (length (fourier_grid_raw g))"
    unfolding idx lenraw using lab stM by (simp add: algebra_simps)
  show "idx_real_spec (Nmesh g) (n_extra_x_slices_left g) coord mod (2 * (Nmesh g div 2 + 1)) = last coord"
    unfolding idx using lab stM by (simp add: st_def M_def)
  show "last coord < Nmesh g" using lab by (simp add: M_def)
qed

text \<open>
  Within the 32 bits.  On a grid as the constructor builds it, with fewer than
  \<open>2\<^sup>3\<^sup>1\<close> reals in its storage, for a coordinate vector \<open>(c0, \<dots>, c_{N-1})\<close> with
  \<open>c0\<close> between \<open>- gL\<close> and \<open>Local_nx + gR - 1\<close> and every other component between
  0 and \<open>M - 1\<close>: the offset into the storage that \<^verbatim>\<open>get_real\<close>, \<^verbatim>\<open>set_real\<close> and
  \<^verbatim>\<open>add_real\<close> address, the pointer offset past the left ghost slabs plus
  \<^verbatim>\<open>get_index_real(coord)\<close>, is the padded recurrence
  \<open>(((c0 + gL) * M + c1) * M + \<dots>) * (2 * (M div 2 + 1)) + c_{N-1}\<close>; it lies inside
  the storage; \<^verbatim>\<open>get_real\<close> returns the element there and \<^verbatim>\<open>set_real\<close>,
  \<^verbatim>\<open>add_real\<close> change that element and no other.
\<close>

lemma padded_offset_in_range:
  assumes wf: "grid_wf g" and len: "length coord = N_dim g"
    and c0: "- n_extra_x_slices_left g \<le> coord ! 0"
            "coord ! 0 < Local_nx g + n_extra_x_slices_right g"
    and ck: "\<And>k. 1 \<le> k \<Longrightarrow> k < N_dim g \<Longrightarrow> 0 \<le> coord ! k \<and> coord ! k < Nmesh g"
    and lim: "NmeshTotRealAlloc g < 2147483648"
    and off: "off = idx_real_spec (Nmesh g) (n_extra_x_slices_left g) coord"
  shows "real_offset g coord = off \<and> 0 \<le> off \<and> off < int (length (fourier_grid_raw g))
       \<and> get_real g coord = Inr (fourier_grid_raw g ! nat off)
       \<and> set_real g coord v = Inr (g\<lparr>fourier_grid_raw := (fourier_grid_raw g)[nat off := v]\<rparr>)
       \<and> add_real g coord v =
           Inr (g\<lparr>fourier_grid_raw := (fourier_grid_raw g)[nat off := fourier_grid_raw g ! nat off + v]\<rparr>)"
proof -
  have ro: "real_offset g coord = off" unfolding off by (rule real_offset_spec[OF wf len c0 ck lim])
  have b: "0 \<le> off" "off < int (length (fourier_grid_raw g))"
    unfolding off using idx_real_spec_bounds(1,2)[OF wf len c0] ck by auto
  have ro': "NmeshTotRealSlice g * n_extra_x_slices_left g + get_index_real g coord = off"
    using ro by (simp add: real_offset_def get_real_grid_def get_real_grid_left_def)
  show ?thesis using ro b len
    by (simp add: get_real_def set_real_def add_real_def ro' load_real_def store_real_def bind_err_def)
qed

lemma FFTWGrid_new_shape:
  "N_dim (FFTWGrid_new N M nleft nright) = N"
  "Nmesh (FFTWGrid_new N M nleft nright) = M"
  "n_extra_x_slices_left (FFTWGrid_new N M nleft nright) = nleft"
  "n_extra_x_slices_right (FFTWGrid_new N M nleft nright) = nright"
  "Local_nx (FFTWGrid_new N M nleft nright) = M"
  "NmeshTotRealSlice (FFTWGrid_new N M nleft nright) = 2 * ((cdiv M 2 + 1) * M ^ (N - 2))"
  by (simp_all add: FFTWGrid_new_def FFTWGrid_fields_def Let_def power_ll_def)

text \<open>
  \<^bold>\<open>C6\<close>.  In two and three dimensions the claim fails on large grids:
  \<^verbatim>\<open>get_index_real_2d\<close> and \<^verbatim>\<open>get_index_real_3d\<close> compute the index in \<^verbatim>\<open>int\<close>,
  although they return an \<^verbatim>\<open>IndexIntType\<close> and the loop of \<^verbatim>\<open>get_index_real\<close>
  for the other dimensions accumulates it in that wider type.  On the mesh of
  \<open>2048\<^sup>3\<close> cells without ghost slabs, a storage of 8598323200 reals, the padded
  recurrence places the cell \<open>(2047, 2047, 2047)\<close> at the offset 8598323197;
  the product \<open>(2048 * 2047 + 2047) * 2 * 1025 = 8598321150\<close> does not fit 32
  bits, and \<^verbatim>\<open>get_real\<close>, \<^verbatim>\<open>set_real\<close> and \<^verbatim>\<open>add_real\<close> address the offset
  8388605, the cell \<open>(1, 2044, 5)\<close>.
\<close>

theorem padded_offset_wraps_in_3d:
  "idx_real_spec 2048 0 [2047, 2047, 2047] = 8598323197
   \<and> int (length (fourier_grid_raw (FFTWGrid_new 3 2048 0 0))) = 8598323200
   \<and> real_offset (FFTWGrid_new 3 2048 0 0) [2047, 2047, 2047] = 8388605
   \<and> idx_real_spec 2048 0 [1, 2044, 5] = 8388605"
proof -
  let ?g = "FFTWGrid_new 3 2048 0 0"
  have wf: "grid_wf ?g" by (rule grid_wf_new) simp_all
  have a: "NmeshTotRealAlloc ?g = 8598323200"
    unfolding wf_alloc[OF wf] FFTWGrid_new_shape by simp
  have i: "get_index_real_3d ?g 2047 2047 2047 = 8388605"
    by (simp add: get_index_real_3d_def FFTWGrid_new_shape int_add_def int_mul_def to_int32_def cdiv_def)
  have "get_index_real ?g [2047, 2047, 2047] = get_index_real_3d ?g 2047 2047 2047"
    by (simp add: get_index_real_def FFTWGrid_new_shape)
  then have r: "real_offset ?g [2047, 2047, 2047] = 8388605"
    by (simp add: real_offset_def get_real_grid_def get_real_grid_left_def FFTWGrid_new_shape i)
  have s: "idx_real_spec 2048 0 [2047, 2047, 2047] = 8598323197"
    "idx_real_spec 2048 0 [1, 2044, 5] = 8388605"
    by (simp_all add: idx_real_spec_def)
  have l: "int (length (fourier_grid_raw ?g)) = 8598323200"
    using wf a by (simp only: grid_wf_def)
  show ?thesis using s l r by simp
qed

section \<open>Ghost widths\<close>

lemma extra_slices_values:
  "get_extra_slices_needed_by_order 1 = (0, 0)"
  "get_extra_slices_needed_by_order 2 = (0, 1)"
  "get_extra_slices_needed_by_order 3 = (1, 2)"
  "get_extra_slices_needed_by_order 4 = (1, 2)"
  "get_extra_slices_needed_by_order 5 = (2, 3)"
  by (simp_all add: get_extra_slices_needed_by_order_def cdiv_def cmod_def)

lemma order_cases:
  assumes "1 \<le> (p::int)" "p \<le> 5"
  obtains "p = 1" | "p = 2" | "p = 3" | "p = 4" | "p = 5"
  using assms by arith

text \<open>
  \<^bold>\<open>C5\<close>, as amended.  For every order \<open>p\<close> from 1 to 5 the helper returns
  \<open>(0, 0)\<close> for \<open>p = 1\<close>, \<open>(p div 2, p div 2 + 1)\<close> for the odd orders 3 and 5 and
  \<open>(p div 2 - 1, p div 2)\<close> for the even orders; and \<^verbatim>\<open>particles_to_grid\<close>
  fails its assertion on every grid that has fewer ghost slabs on the left or
  on the right than the helper returns.
\<close>

theorem extra_slices_by_order:
  assumes "1 \<le> ORDER" "ORDER \<le> 5"
  shows "get_extra_slices_needed_by_order ORDER =
           (if ORDER = 1 then (0, 0)
            else if odd ORDER then (ORDER div 2, ORDER div 2 + 1)
            else (ORDER div 2 - 1, ORDER div 2))
       \<and> (n_extra_x_slices_left density < fst (get_extra_slices_needed_by_order ORDER)
            \<or> n_extra_x_slices_right density < snd (get_extra_slices_needed_by_order ORDER)
          \<longrightarrow> particles_to_grid ORDER part NumPart NumPartTot density
                = Inl (AssertFailed ''[particles_to_grid] Too few extra slices\<newline>''))"
proof -
  have "get_extra_slices_needed_by_order ORDER =
           (if ORDER = 1 then (0, 0)
            else if odd ORDER then (ORDER div 2, ORDER div 2 + 1)
            else (ORDER div 2 - 1, ORDER div 2))"
    using assms by (cases ORDER rule: order_cases) (simp_all add: extra_slices_values)
  moreover have "n_extra_x_slices_left density < fst (get_extra_slices_needed_by_order ORDER)
            \<or> n_extra_x_slices_right density < snd (get_extra_slices_needed_by_order ORDER)
          \<longrightarrow> particles_to_grid ORDER part NumPart NumPartTot density
                = Inl (AssertFailed ''[particles_to_grid] Too few extra slices\<newline>'')"
    by (auto simp: particles_to_grid_def Let_def assert_mpi_def bind_err_def)
  ultimately show ?thesis by blast
qed

theorem extra_slices_by_order_witness:
  "(1::int) \<le> 2 \<and> (2::int) \<le> 5 \<and> get_extra_slices_needed_by_order 2 = (0, 1)
   \<and> particles_to_grid 2 [] 0 1 (FFTWGrid_new 2 2 0 0)
        = Inl (AssertFailed ''[particles_to_grid] Too few extra slices\<newline>'')"
  using extra_slices_by_order[of 2 "FFTWGrid_new 2 2 0 0" "[]" 0 1]
  by (simp add: FFTWGrid_new_def FFTWGrid_fields_def Let_def)

text \<open>
  The claim as first stated fails: for the even order 2 the left width is 0,
  less than \<open>2 div 2 = 1\<close>; and for the odd order 1 the right width is 0, not
  \<open>1 div 2 + 1 = 1\<close>.
\<close>

theorem extra_slices_even_order_counterexample:
  "fst (get_extra_slices_needed_by_order 2) = 0 \<and> (2::int) div 2 = 1
   \<and> snd (get_extra_slices_needed_by_order 1) = 0 \<and> (1::int) div 2 + 1 = 1"
  by (simp add: extra_slices_values)

section \<open>Dispatch on the name of the method\<close>

text \<open>
  \<^bold>\<open>C10\<close>.  For every name that is none of \<open>NGP\<close>, \<open>CIC\<close>, \<open>TSC\<close>, \<open>PCS\<close>, \<open>PQS\<close>,
  the overloads of \<^verbatim>\<open>particles_to_grid\<close> and of
  \<^verbatim>\<open>interpolate_grid_to_particle_positions\<close> that take the name return without
  an error and leave the density grid, respectively the vector of values, as
  it was.
\<close>

theorem unknown_method_name_ignored:
  assumes "name \<notin> {''NGP'', ''CIC'', ''TSC'', ''PCS'', ''PQS''}"
  shows "particles_to_grid_by_name part NumPart NumPartTot density name = Inr density
       \<and> interpolate_grid_to_particle_positions_by_name grid part NumPart vals name = Inr vals"
  using assms
  by (simp add: particles_to_grid_by_name_def interpolate_grid_to_particle_positions_by_name_def
        bind_err_def)

theorem unknown_method_name_ignored_witness:
  "''XYZ'' \<notin> {''NGP'', ''CIC'', ''TSC'', ''PCS'', ''PQS''}
   \<and> particles_to_grid_by_name [Particle [1/2, 1/2] None None] 1 1 (FFTWGrid_new 2 2 0 1) ''XYZ''
       = Inr (FFTWGrid_new 2 2 0 1)
   \<and> interpolate_grid_to_particle_positions_by_name (FFTWGrid_new 2 2 0 1)
        [Particle [1/2, 1/2] None None] 1 [7] ''XYZ'' = Inr [7]"
  using unknown_method_name_ignored[of "''XYZ''" "[Particle [1/2, 1/2] None None]" 1 1
          "FFTWGrid_new 2 2 0 1" "FFTWGrid_new 2 2 0 1" "[7]"]
  by simp

section \<open>The weights of the nearest-grid-point order\<close>

text \<open>
  \<^bold>\<open>C2\<close>, the code at a failing input.  With order 1 the stencil is the one
  cell that holds the particle, and its weight is \<open>kernel<1>\<close> at the offset
  of the particle from the corner of that cell: for a particle at
  \<open>(3/8, 3/8)\<close> on a mesh of 2 cells per axis the offset is \<open>3/4\<close> on both
  axes, and the weights sum to 0, not to 1.
\<close>

theorem ngp_weights_sum_to_zero:
  "sumweights 1 (FFTWGrid_new 2 2 0 0) [3/8, 3/8] = 0"
  by (simp add: sumweights_def offset_in_cell_def FFTWGrid_new_def FFTWGrid_fields_def Let_def
        to_int32_def power_ll_def stencil_weight_def go_left_right_or_stay_def kernel_def
        int_of_double_def xstart_of_def eval_nat_numeral upt_rec)

section \<open>Friends-of-friends halos\<close>

text \<open>
  \<^bold>\<open>C9\<close>, the code at a failing input.  Two halos of one particle of unit
  mass each, at 0 and at 1, are merged (not periodic): the merged halo has
  two particles and its centre is the mean \<open>1/2\<close>, but its mass is still 1,
  since \<open>merge\<close> never adds the mass of the other halo.
\<close>

theorem halo_merge_keeps_mass:
  "map_sum id (\<lambda>(h, g). (np h, mass h, pos h))
     (FoFHalo_merge
        (FoFHalo_add (FoFHalo_new 1 0 False) (Particle [0] None None) False)
        (FoFHalo_add (FoFHalo_new 1 1 False) (Particle [1] None None) False) False)
   = Inr (2, 1, [1/2])"
  by (simp add: FoFHalo_merge_def FoFHalo_add_def FoFHalo_new_def GetMass_def wrap_pos_def wrap_dx_def Let_def)

section \<open>The FFT driver keeps the head of the right ghost region\<close>

lemma grid_wf_update_raw:
  "grid_wf g \<Longrightarrow> length raw = length (fourier_grid_raw g) \<Longrightarrow> grid_wf (g\<lparr>fourier_grid_raw := raw\<rparr>)"
  by (simp add: grid_wf_def)

lemma save_right_copy_ok:
  assumes "0 \<le> get_real_grid_right g"
    "get_real_grid_right g + (Nmesh g div 2 + 1) \<le> int (length (fourier_grid_raw g))"
    "1 \<le> Nmesh g" "0 < n_extra_x_slices_right g"
  shows "save_right_copy g =
     Inr (map (\<lambda>i. fourier_grid_raw g ! nat (get_real_grid_right g + i))
            (map int [0..<nat (Nmesh g div 2 + 1)]))"
proof -
  have "fold_err (\<lambda>i acc. bind_err (load_real (fourier_grid_raw g) (get_real_grid_right g + i))
                              (\<lambda>v. Inr (acc @ [v])))
          (map int [0..<nat (Nmesh g div 2 + 1)]) []
        = Inr ([] @ map (\<lambda>i. fourier_grid_raw g ! nat (get_real_grid_right g + i))
                 (map int [0..<nat (Nmesh g div 2 + 1)]))"
    by (rule load_loop) (use assms in auto)
  then show ?thesis using assms by (simp add: save_right_copy_def cdiv_nonneg)
qed

lemma restore_right_copy_ok:
  assumes "0 \<le> get_real_grid_right g"
    "get_real_grid_right g + (Nmesh g div 2 + 1) \<le> int (length raw)"
    "1 \<le> Nmesh g" "0 < n_extra_x_slices_right g"
  shows "\<exists>raw'. restore_right_copy g rc raw = Inr raw'
           \<and> (\<forall>i<nat (Nmesh g div 2 + 1). raw' ! nat (get_real_grid_right g + int i) = rc ! i)"
proof -
  have "\<exists>raw'. fold_err (\<lambda>i raw. store_real raw (get_real_grid_right g + int i) (rc ! i))
                  [0..<nat (Nmesh g div 2 + 1)] raw = Inr raw'
           \<and> length raw' = length raw
           \<and> (\<forall>i<nat (Nmesh g div 2 + 1). raw' ! nat (get_real_grid_right g + int i) = rc ! i)"
    by (rule store_loop) (use assms in auto)
  then show ?thesis using assms by (auto simp: restore_right_copy_def cdiv_nonneg)
qed

lemma scale_fourier_cell_ok:
  assumes "0 \<le> get_fourier_grid g + index"
    "2 * (get_fourier_grid g + index) + 1 < int (length raw)"
  shows "\<exists>raw'. scale_fourier_cell g nrm index raw = Inr raw' \<and> length raw' = length raw"
  using assms
  by (simp add: scale_fourier_cell_def Let_def load_real_def store_real_def bind_err_def)

lemma wf_right_ghost_bounds:
  assumes wf: "grid_wf g" and gr: "0 < n_extra_x_slices_right g"
  shows "0 \<le> get_real_grid_right g"
    and "get_real_grid_right g + (Nmesh g div 2 + 1) \<le> int (length (fourier_grid_raw g))"
proof -
  define h where "h = Nmesh g div 2 + 1"
  define P where "P = Nmesh g ^ (N_dim g - 2)"
  define Q where "Q = 2 * (h * P)"
  have M: "1 \<le> Nmesh g" using wf by (simp add: grid_wf_def)
  have h: "1 \<le> h" using M by (simp add: h_def)
  have P: "1 \<le> P" using M by (simp add: P_def)
  have S: "NmeshTotRealSlice g = Q" using wf by (simp add: grid_wf_def h_def P_def Q_def)
  have "h * 1 \<le> h * P" using h P by (intro mult_left_mono) auto
  then have hQ: "h \<le> Q" "0 \<le> Q" using h by (auto simp: Q_def)
  have "Q * 1 \<le> Q * n_extra_x_slices_right g" using gr hQ by (intro mult_left_mono) auto
  then have hg: "h \<le> Q * n_extra_x_slices_right g" using hQ by simp
  have len: "int (length (fourier_grid_raw g)) =
     Q * (n_extra_x_slices_left g + Local_nx g) + Q * n_extra_x_slices_right g"
    using wf by (simp add: grid_wf_def h_def P_def Q_def algebra_simps)
  have nn: "0 \<le> n_extra_x_slices_left g + Local_nx g" using wf by (simp add: grid_wf_def)
  show "0 \<le> get_real_grid_right g"
    unfolding get_real_grid_right_def get_real_grid_left_def S using nn hQ by simp
  show "get_real_grid_right g + (Nmesh g div 2 + 1) \<le> int (length (fourier_grid_raw g))"
    unfolding get_real_grid_right_def get_real_grid_left_def S len h_def[symmetric]
    using hg by simp
qed

lemma wf_fourier_range_bounds:
  assumes wf: "grid_wf g" and ix: "index \<in> set (get_fourier_range g)"
  shows "0 \<le> get_fourier_grid g + index"
    and "2 * (get_fourier_grid g + index) + 1 < int (length (fourier_grid_raw g))"
proof -
  define c where "c = NmeshTotComplexSlice g"
  have M: "1 \<le> Nmesh g" using wf by (simp add: grid_wf_def)
  have c: "c = (Nmesh g div 2 + 1) * Nmesh g ^ (N_dim g - 2)" using wf by (simp add: grid_wf_def c_def)
  have c0: "0 \<le> c" unfolding c using M by simp
  have rng: "power_ll (Nmesh g) (N_dim g - 2) * (cdiv (Nmesh g) 2 + 1) * Local_nx g = c * Local_nx g"
    using M by (simp add: power_ll_def cdiv_nonneg c algebra_simps)
  have i: "0 \<le> index" "index < c * Local_nx g"
    using ix unfolding get_fourier_range_def rng by auto
  have gl: "0 \<le> n_extra_x_slices_left g" "0 \<le> n_extra_x_slices_right g"
    using wf by (auto simp: grid_wf_def)
  have len: "int (length (fourier_grid_raw g)) =
     2 * (c * Local_nx g + c * (n_extra_x_slices_left g + n_extra_x_slices_right g))"
    using wf by (simp add: grid_wf_def c_def)
  show "0 \<le> get_fourier_grid g + index"
    unfolding get_fourier_grid_def c_def[symmetric] using i c0 gl by simp
  have "0 \<le> c * n_extra_x_slices_right g" using c0 gl by simp
  then show "2 * (get_fourier_grid g + index) + 1 < int (length (fourier_grid_raw g))"
    unfolding get_fourier_grid_def c_def[symmetric] len using i by (simp add: algebra_simps)
qed

text \<open>
  \<^bold>\<open>C7\<close>.  On a grid as the constructor builds it, with at least one ghost
  slab on the right, and whatever the external in-place transform leaves in
  the storage: \<^verbatim>\<open>fftw_r2c\<close> and \<^verbatim>\<open>fftw_c2r\<close> return, the first \<open>M div 2 + 1\<close>
  reals of the right ghost region have the values they had before the call,
  and the grid is tagged as Fourier space after \<^verbatim>\<open>fftw_r2c\<close> and as real space
  after \<^verbatim>\<open>fftw_c2r\<close>.
\<close>

theorem fft_keeps_right_ghost_head:
  assumes wf: "grid_wf g" and gr: "0 < n_extra_x_slices_right g"
  shows "(\<exists>g'. fftw_r2c (Some plan_r2c) g = Inr g' \<and> \<not> grid_is_in_real_space g'
            \<and> (\<forall>i<nat (Nmesh g div 2 + 1).
                  fourier_grid_raw g' ! nat (get_real_grid_right g + int i)
                    = fourier_grid_raw g ! nat (get_real_grid_right g + int i)))
       \<and> (\<exists>g'. fftw_c2r (Some plan_c2r) g = Inr g' \<and> grid_is_in_real_space g'
            \<and> (\<forall>i<nat (Nmesh g div 2 + 1).
                  fourier_grid_raw g' ! nat (get_real_grid_right g + int i)
                    = fourier_grid_raw g ! nat (get_real_grid_right g + int i)))"
proof -
  let ?raw = "fourier_grid_raw g"
  let ?H = "nat (Nmesh g div 2 + 1)"
  define rc where "rc = map (\<lambda>i. ?raw ! nat (get_real_grid_right g + i)) (map int [0..<?H])"
  have M: "1 \<le> Nmesh g" using wf by (simp add: grid_wf_def)
  note b = wf_right_ghost_bounds[OF wf gr]
  have save: "save_right_copy g = Inr rc" unfolding rc_def by (rule save_right_copy_ok[OF b M gr])
  have rc: "\<And>i. i < ?H \<Longrightarrow> rc ! i = ?raw ! nat (get_real_grid_right g + int i)"
    by (simp add: rc_def)
  have restore: "\<exists>raw'. restore_right_copy g rc raw = Inr raw'
           \<and> (\<forall>i<?H. raw' ! nat (get_real_grid_right g + int i) = rc ! i)"
    if "length raw = length ?raw" for raw
    by (rule restore_right_copy_ok) (use b M gr that in auto)
  have ex: "length (EXECUTE_FFT p ?raw) = length ?raw" for p by (simp add: EXECUTE_FFT_def)
  have "\<exists>raw2. fold_err (scale_fourier_cell g nrm) (get_fourier_range g) (EXECUTE_FFT plan_r2c ?raw) = Inr raw2
          \<and> length raw2 = length ?raw" for nrm
  proof (rule fold_err_inv)
    fix x and s :: "real list"
    assume "x \<in> set (get_fourier_range g)" "length s = length ?raw"
    then show "\<exists>s'. scale_fourier_cell g nrm x s = Inr s' \<and> length s' = length ?raw"
      using scale_fourier_cell_ok[of g x s nrm] wf_fourier_range_bounds[OF wf, of x] by auto
  qed (rule ex)
  then obtain raw2 where raw2:
    "fold_err (scale_fourier_cell g (1 / real_of_int (Nmesh g) ^ N_dim g)) (get_fourier_range g)
       (EXECUTE_FFT plan_r2c ?raw) = Inr raw2" "length raw2 = length ?raw"
    by blast
  obtain raw3 where raw3: "restore_right_copy g rc raw2 = Inr raw3"
    "\<forall>i<?H. raw3 ! nat (get_real_grid_right g + int i) = rc ! i"
    using restore[OF raw2(2)] by blast
  obtain raw4 where raw4: "restore_right_copy g rc (EXECUTE_FFT plan_c2r ?raw) = Inr raw4"
    "\<forall>i<?H. raw4 ! nat (get_real_grid_right g + int i) = rc ! i"
    using restore[OF ex] by blast
  have r2c: "fftw_r2c (Some plan_r2c) g = Inr (g\<lparr>fourier_grid_raw := raw3, grid_is_in_real_space := False\<rparr>)"
    by (simp add: fftw_r2c_def save raw2 raw3 bind_err_def Let_def)
  have c2r: "fftw_c2r (Some plan_c2r) g = Inr (g\<lparr>fourier_grid_raw := raw4, grid_is_in_real_space := True\<rparr>)"
    by (simp add: fftw_c2r_def save raw4 bind_err_def Let_def)
  show ?thesis
    unfolding r2c c2r using raw3(2) raw4(2) rc by simp
qed

theorem fft_keeps_right_ghost_head_witness:
  "grid_wf ((FFTWGrid_new 2 2 0 1)\<lparr>fourier_grid_raw := [1, 2, 3, 4, 5, 6, 7, 8, 9, 10, 11, 12]\<rparr>)
   \<and> 0 < n_extra_x_slices_right (FFTWGrid_new 2 2 0 1)
   \<and> (\<exists>g'. fftw_r2c (Some (\<lambda>raw k. 0))
               ((FFTWGrid_new 2 2 0 1)\<lparr>fourier_grid_raw := [1, 2, 3, 4, 5, 6, 7, 8, 9, 10, 11, 12]\<rparr>) = Inr g'
            \<and> \<not> grid_is_in_real_space g'
            \<and> fourier_grid_raw g' ! 8 = 9 \<and> fourier_grid_raw g' ! 9 = 10)
   \<and> (\<exists>g'. fftw_c2r (Some (\<lambda>raw k. 0))
               ((FFTWGrid_new 2 2 0 1)\<lparr>fourier_grid_raw := [1, 2, 3, 4, 5, 6, 7, 8, 9, 10, 11, 12]\<rparr>) = Inr g'
            \<and> grid_is_in_real_space g'
            \<and> fourier_grid_raw g' ! 8 = 9 \<and> fourier_grid_raw g' ! 9 = 10)"
proof -
  let ?g = "(FFTWGrid_new 2 2 0 1)\<lparr>fourier_grid_raw := [1, 2, 3, 4, 5, 6, 7, 8, 9, 10, 11, 12]\<rparr>"
  have f: "Nmesh ?g = 2" "n_extra_x_slices_right ?g = 1" "get_real_grid_right ?g = 8"
    "n_extra_x_slices_right (FFTWGrid_new 2 2 0 1) = 1"
    "length (fourier_grid_raw (FFTWGrid_new 2 2 0 1)) = 12"
    by (simp_all add: FFTWGrid_new_def FFTWGrid_fields_def Let_def power_ll_def cdiv_def
          get_real_grid_right_def get_real_grid_left_def eval_nat_numeral)
  have wf: "grid_wf ?g"
    by (rule grid_wf_update_raw, rule grid_wf_new) (simp_all add: f)
  have gr: "0 < n_extra_x_slices_right ?g" by (simp add: f)
  have two: "nat (2 div 2 + 1) = Suc (Suc 0)" by simp
  show ?thesis
    using fft_keeps_right_ghost_head[OF wf gr, of "\<lambda>raw k. 0" "\<lambda>raw k. 0"] wf
    unfolding f two by (auto simp: All_less_Suc f)
qed

section \<open>What makes the scatter fail\<close>

lemma add_real_err: "add_real g coord v = Inl e \<Longrightarrow> e = UndefinedBehaviour"
  by (auto simp: add_real_def split: if_splits dest!: bind_err_Inl dest: load_real_err store_real_err)

lemma deposit_particle_err: "deposit_particle ORDER nf ps d = Inl e \<Longrightarrow> e = UndefinedBehaviour"
  unfolding deposit_particle_def Let_def
  by (auto split: if_splits elim!: fold_err_err dest: add_real_err)

lemma add_slice_err: "add_slice n dst src raw = Inl e \<Longrightarrow> e = UndefinedBehaviour"
  unfolding add_slice_def
  by (erule fold_err_err) (auto dest!: bind_err_Inl dest: load_real_err store_real_err)

lemma add_contribution_err:
  "add_contribution_from_extra_slices d = Inl e \<Longrightarrow> e = UndefinedBehaviour"
  unfolding add_contribution_from_extra_slices_def Let_def
  by (auto dest!: bind_err_Inl elim!: fold_err_err dest: add_slice_err)

lemma fill_real_grid_err: "fill_real_grid g v = Inl e \<Longrightarrow> e = UndefinedBehaviour"
  by (simp add: fill_real_grid_def split: if_splits)

text \<open>
  The only assertion of \<^verbatim>\<open>particles_to_grid\<close> is the one on the ghost widths: for
  every set of particles the call fails an assertion exactly when the grid has
  fewer ghost slabs than the order needs, and with that message.
\<close>

lemma assertion_only_on_ghost_widths:
  "particles_to_grid ORDER part NumPart NumPartTot density = Inl (AssertFailed m)
   \<longleftrightarrow> (n_extra_x_slices_left density < fst (get_extra_slices_needed_by_order ORDER)
          \<or> n_extra_x_slices_right density < snd (get_extra_slices_needed_by_order ORDER))
       \<and> m = ''[particles_to_grid] Too few extra slices\<newline>''"
proof (cases "fst (get_extra_slices_needed_by_order ORDER) \<le> n_extra_x_slices_left density
              \<and> snd (get_extra_slices_needed_by_order ORDER) \<le> n_extra_x_slices_right density")
  case True
  have "e = UndefinedBehaviour"
    if "particles_to_grid ORDER part NumPart NumPartTot density = Inl e" for e
    using that True unfolding particles_to_grid_def Let_def assert_mpi_def
    by (auto simp: bind_err_def split: sum.splits if_splits
          dest: fill_real_grid_err add_contribution_err
          elim!: fold_err_err dest: deposit_particle_err)
  then show ?thesis using True by fastforce
next
  case False
  then show ?thesis
    by (auto simp: particles_to_grid_def Let_def assert_mpi_def bind_err_def)
qed

section \<open>Halo exchange\<close>

lemma length_window_copy [simp]: "length (window_copy src raw lo hi d) = length raw"
  by (simp add: window_copy_def)

lemma nth_window_copy:
  "t < length raw \<Longrightarrow>
   window_copy src raw lo hi d ! t =
     (if lo \<le> int t \<and> int t < hi then src ! nat (int t + d) else raw ! t)"
  by (simp add: window_copy_def)

lemma window_copy_empty: "hi \<le> lo \<Longrightarrow> window_copy src raw lo hi d = raw"
  by (rule nth_equalityI) (auto simp: nth_window_copy)

lemma MPI_Sendrecv_window:
  assumes "0 \<le> bytes" "0 \<le> sendbuf" "sendbuf + bytes div 8 \<le> int (length sender_raw)"
    "0 \<le> recvbuf" "recvbuf + bytes div 8 \<le> int (length raw)"
  shows "MPI_Sendrecv sender_raw sendbuf raw recvbuf bytes =
     Inr (window_copy sender_raw raw recvbuf (recvbuf + bytes div 8) (sendbuf - recvbuf))"
proof -
  have "(\<lambda>k. if recvbuf \<le> int k \<and> int k < recvbuf + bytes div 8
              then sender_raw ! nat (int k - recvbuf + sendbuf) else raw ! k)
      = (\<lambda>t. if recvbuf \<le> int t \<and> int t < recvbuf + bytes div 8
              then sender_raw ! nat (int t + (sendbuf - recvbuf)) else raw ! t)"
    by (rule ext) (simp add: algebra_simps)
  then show ?thesis using assms by (simp add: MPI_Sendrecv_def window_copy_def Let_def)
qed

lemma memcpy_reals_window:
  assumes "0 \<le> bytes" "0 \<le> sendbuf" "sendbuf + bytes div 8 \<le> int (length raw)"
    "0 \<le> recvbuf" "recvbuf + bytes div 8 \<le> int (length raw)"
    "recvbuf + bytes div 8 \<le> sendbuf \<or> sendbuf + bytes div 8 \<le> recvbuf"
  shows "memcpy_reals raw recvbuf sendbuf bytes =
     Inr (window_copy raw raw recvbuf (recvbuf + bytes div 8) (sendbuf - recvbuf))"
proof -
  have "(\<lambda>k. if recvbuf \<le> int k \<and> int k < recvbuf + bytes div 8
              then raw ! nat (int k - recvbuf + sendbuf) else raw ! k)
      = (\<lambda>t. if recvbuf \<le> int t \<and> int t < recvbuf + bytes div 8
              then raw ! nat (int t + (sendbuf - recvbuf)) else raw ! t)"
    by (rule ext) (simp add: algebra_simps)
  then show ?thesis using assms by (simp add: memcpy_reals_def window_copy_def Let_def)
qed

lemma window_extend_right:
  assumes "lo \<le> hi" "hi \<le> hi'" "length cur = length raw"
    "\<And>t. hi \<le> int t \<Longrightarrow> int t < hi' \<Longrightarrow> t < length raw \<Longrightarrow> cur ! nat (int t + d) = src ! nat (int t + d)"
  shows "window_copy cur (window_copy src raw lo hi d) hi hi' d = window_copy src raw lo hi' d"
  by (rule nth_equalityI) (use assms in \<open>auto simp: nth_window_copy\<close>)

lemma window_extend_left:
  assumes "lo' \<le> lo" "lo \<le> hi"
    "\<And>t. lo' \<le> int t \<Longrightarrow> int t < lo \<Longrightarrow> t < length raw \<Longrightarrow> cur ! nat (int t + d) = src ! nat (int t + d)"
  shows "window_copy cur (window_copy src raw lo hi d) lo' lo d = window_copy src raw lo' hi d"
  by (rule nth_equalityI) (use assms in \<open>auto simp: nth_window_copy\<close>)

lemma map_err_Inr:
  "(\<And>x. x \<in> set xs \<Longrightarrow> f x = Inr (h x)) \<Longrightarrow> map_err f xs = Inr (map h xs)"
  by (induction xs) simp_all


lemma length_ring_windows [simp]: "length (ring_windows nb gs0 gs lo hi d) = length gs"
  by (simp add: ring_windows_def)

lemma nth_ring_windows:
  "r < length gs \<Longrightarrow>
   ring_windows nb gs0 gs lo hi d ! r =
     (gs ! r)\<lparr>fourier_grid_raw :=
        window_copy (fourier_grid_raw (gs0 ! nb r)) (fourier_grid_raw (gs ! r)) lo hi d\<rparr>"
  by (simp add: ring_windows_def)

lemma ring_windows_empty: "hi \<le> lo \<Longrightarrow> ring_windows nb gs0 gs lo hi d = gs"
  by (rule nth_equalityI) (simp_all add: nth_ring_windows window_copy_empty)

text \<open>One round that extends the windows of all processes to the right by \<open>S\<close> reals.\<close>

lemma ring_round_right:
  assumes len: "\<And>r. r < length gs \<Longrightarrow> int (length (fourier_grid_raw (gs ! r))) = len"
    and len0: "\<And>r. r < length gs \<Longrightarrow> int (length (fourier_grid_raw (gs0 ! r))) = len"
    and nb: "\<And>r. r < length gs \<Longrightarrow> nb r < length gs"
    and src: "\<And>r. r < length gs \<Longrightarrow> nat (source (int r)) = nb r"
    and sendf: "\<And>r raw. r < length gs \<Longrightarrow> sendf ((gs ! r)\<lparr>fourier_grid_raw := raw\<rparr>) = hi + d"
    and recvf: "\<And>r raw. r < length gs \<Longrightarrow> recvf ((gs ! r)\<lparr>fourier_grid_raw := raw\<rparr>) = hi"
    and bytes: "\<And>r raw. r < length gs \<Longrightarrow> bytes_slice ((gs ! r)\<lparr>fourier_grid_raw := raw\<rparr>) = 8 * S"
    and b: "0 \<le> S" "0 \<le> hi + d" "hi + d + S \<le> len" "0 \<le> hi" "hi + S \<le> len" "lo \<le> hi"
    and out: "hi + d + S \<le> lo \<or> hi \<le> hi + d"
    and agree: "\<And>r u. r < length gs \<Longrightarrow> hi + d \<le> int u \<Longrightarrow> int u < hi + d + S \<Longrightarrow>
                 fourier_grid_raw (gs ! r) ! u = fourier_grid_raw (gs0 ! r) ! u"
  shows "sendrecv_round sendf recvf source (ring_windows nb gs0 gs lo hi d)
         = Inr (ring_windows nb gs0 gs lo (hi + S) d)"
proof -
  let ?cur = "ring_windows nb gs0 gs lo hi d"
  let ?W = "\<lambda>r. window_copy (fourier_grid_raw (gs0 ! nb r)) (fourier_grid_raw (gs ! r)) lo hi d"
  let ?h = "\<lambda>r. (gs ! r)\<lparr>fourier_grid_raw :=
        window_copy (fourier_grid_raw (gs0 ! nb r)) (fourier_grid_raw (gs ! r)) lo (hi + S) d\<rparr>"
  have step: "(let g = ?cur ! r; sender = ?cur ! nat (source (int r))
          in bind_err (MPI_Sendrecv (fourier_grid_raw sender) (sendf sender)
                         (fourier_grid_raw g) (recvf g) (bytes_slice g))
               (\<lambda>raw. Inr (g\<lparr>fourier_grid_raw := raw\<rparr>))) = Inr (?h r)"
    if r: "r < length gs" for r
  proof -
    have nr: "nb r < length gs" by (rule nb[OF r])
    have g: "?cur ! r = (gs ! r)\<lparr>fourier_grid_raw := ?W r\<rparr>" by (rule nth_ring_windows[OF r])
    have sd: "?cur ! nat (source (int r)) = (gs ! nb r)\<lparr>fourier_grid_raw := ?W (nb r)\<rparr>"
      unfolding src[OF r] by (rule nth_ring_windows[OF nr])
    have lW: "int (length (?W (nb r))) = len" "int (length (?W r)) = len"
      using len[OF r] len[OF nr] by simp_all
    have sr: "MPI_Sendrecv (?W (nb r)) (hi + d) (?W r) hi (8 * S)
          = Inr (window_copy (?W (nb r)) (?W r) hi (hi + (8 * S) div 8) ((hi + d) - hi))"
      by (rule MPI_Sendrecv_window) (use b lW in auto)
    have ext: "window_copy (?W (nb r)) (?W r) hi (hi + S) d
          = window_copy (fourier_grid_raw (gs0 ! nb r)) (fourier_grid_raw (gs ! r)) lo (hi + S) d"
    proof (rule window_extend_right)
      show "lo \<le> hi" "hi \<le> hi + S" using b by auto
      show "length (?W (nb r)) = length (fourier_grid_raw (gs ! r))"
        using len[OF r] len[OF nr] by (simp add: int_int_eq[symmetric] del: int_int_eq)
    next
      fix t assume t: "hi \<le> int t" "int t < hi + S" "t < length (fourier_grid_raw (gs ! r))"
      let ?u = "nat (int t + d)"
      have u: "hi + d \<le> int ?u" "int ?u < hi + d + S" using t b by auto
      have ul: "?u < length (fourier_grid_raw (gs ! nb r))"
        using u b len[OF nr] by linarith
      have nw: "\<not> (lo \<le> int ?u \<and> int ?u < hi)" using u out by auto
      have "?W (nb r) ! ?u = fourier_grid_raw (gs ! nb r) ! ?u"
        by (simp only: nth_window_copy[OF ul] if_not_P[OF nw])
      also have "\<dots> = fourier_grid_raw (gs0 ! nb r) ! ?u"
        by (rule agree[OF nr u])
      finally show "?W (nb r) ! nat (int t + d) = fourier_grid_raw (gs0 ! nb r) ! nat (int t + d)" .
    qed
    show ?thesis
      unfolding Let_def g sd
      by (simp add: sendf[OF nr] recvf[OF r] bytes[OF r] sr ext bind_err_def)
  qed
  have "sendrecv_round sendf recvf source ?cur = Inr (map ?h [0..<length ?cur])"
    unfolding sendrecv_round_def by (rule map_err_Inr) (use step in auto)
  then show ?thesis by (simp add: ring_windows_def)
qed

text \<open>One round that extends the windows of all processes to the left by \<open>S\<close> reals.\<close>

lemma ring_round_left:
  assumes len: "\<And>r. r < length gs \<Longrightarrow> int (length (fourier_grid_raw (gs ! r))) = len"
    and len0: "\<And>r. r < length gs \<Longrightarrow> int (length (fourier_grid_raw (gs0 ! r))) = len"
    and nb: "\<And>r. r < length gs \<Longrightarrow> nb r < length gs"
    and src: "\<And>r. r < length gs \<Longrightarrow> nat (source (int r)) = nb r"
    and sendf: "\<And>r raw. r < length gs \<Longrightarrow> sendf ((gs ! r)\<lparr>fourier_grid_raw := raw\<rparr>) = lo - S + d"
    and recvf: "\<And>r raw. r < length gs \<Longrightarrow> recvf ((gs ! r)\<lparr>fourier_grid_raw := raw\<rparr>) = lo - S"
    and bytes: "\<And>r raw. r < length gs \<Longrightarrow> bytes_slice ((gs ! r)\<lparr>fourier_grid_raw := raw\<rparr>) = 8 * S"
    and b: "0 \<le> S" "0 \<le> lo - S + d" "lo + d \<le> len" "0 \<le> lo - S" "lo \<le> len" "lo \<le> hi"
    and out: "lo + d \<le> lo \<or> hi \<le> lo - S + d"
    and agree: "\<And>r u. r < length gs \<Longrightarrow> lo - S + d \<le> int u \<Longrightarrow> int u < lo + d \<Longrightarrow>
                 fourier_grid_raw (gs ! r) ! u = fourier_grid_raw (gs0 ! r) ! u"
  shows "sendrecv_round sendf recvf source (ring_windows nb gs0 gs lo hi d)
         = Inr (ring_windows nb gs0 gs (lo - S) hi d)"
proof -
  let ?cur = "ring_windows nb gs0 gs lo hi d"
  let ?W = "\<lambda>r. window_copy (fourier_grid_raw (gs0 ! nb r)) (fourier_grid_raw (gs ! r)) lo hi d"
  let ?h = "\<lambda>r. (gs ! r)\<lparr>fourier_grid_raw :=
        window_copy (fourier_grid_raw (gs0 ! nb r)) (fourier_grid_raw (gs ! r)) (lo - S) hi d\<rparr>"
  have step: "(let g = ?cur ! r; sender = ?cur ! nat (source (int r))
          in bind_err (MPI_Sendrecv (fourier_grid_raw sender) (sendf sender)
                         (fourier_grid_raw g) (recvf g) (bytes_slice g))
               (\<lambda>raw. Inr (g\<lparr>fourier_grid_raw := raw\<rparr>))) = Inr (?h r)"
    if r: "r < length gs" for r
  proof -
    have nr: "nb r < length gs" by (rule nb[OF r])
    have g: "?cur ! r = (gs ! r)\<lparr>fourier_grid_raw := ?W r\<rparr>" by (rule nth_ring_windows[OF r])
    have sd: "?cur ! nat (source (int r)) = (gs ! nb r)\<lparr>fourier_grid_raw := ?W (nb r)\<rparr>"
      unfolding src[OF r] by (rule nth_ring_windows[OF nr])
    have lW: "int (length (?W (nb r))) = len" "int (length (?W r)) = len"
      using len[OF r] len[OF nr] by simp_all
    have sr: "MPI_Sendrecv (?W (nb r)) (lo - S + d) (?W r) (lo - S) (8 * S)
          = Inr (window_copy (?W (nb r)) (?W r) (lo - S) (lo - S + (8 * S) div 8) ((lo - S + d) - (lo - S)))"
      by (rule MPI_Sendrecv_window) (use b lW in auto)
    have ext: "window_copy (?W (nb r)) (?W r) (lo - S) lo d
          = window_copy (fourier_grid_raw (gs0 ! nb r)) (fourier_grid_raw (gs ! r)) (lo - S) hi d"
    proof (rule window_extend_left)
      show "lo - S \<le> lo" "lo \<le> hi" using b by auto
    next
      fix t assume t: "lo - S \<le> int t" "int t < lo" "t < length (fourier_grid_raw (gs ! r))"
      let ?u = "nat (int t + d)"
      have u: "lo - S + d \<le> int ?u" "int ?u < lo + d" using t b by auto
      have ul: "?u < length (fourier_grid_raw (gs ! nb r))"
        using u b len[OF nr] by linarith
      have nw: "\<not> (lo \<le> int ?u \<and> int ?u < hi)" using u out by auto
      have "?W (nb r) ! ?u = fourier_grid_raw (gs ! nb r) ! ?u"
        by (simp only: nth_window_copy[OF ul] if_not_P[OF nw])
      also have "\<dots> = fourier_grid_raw (gs0 ! nb r) ! ?u"
        by (rule agree[OF nr u])
      finally show "?W (nb r) ! nat (int t + d) = fourier_grid_raw (gs0 ! nb r) ! nat (int t + d)" .
    qed
    show ?thesis
      unfolding Let_def g sd
      by (simp add: sendf[OF nr] recvf[OF r] bytes[OF r] sr ext bind_err_def)
  qed
  have "sendrecv_round sendf recvf source ?cur = Inr (map ?h [0..<length ?cur])"
    unfolding sendrecv_round_def by (rule map_err_Inr) (use step in auto)
  then show ?thesis by (simp add: ring_windows_def)
qed


lemma fold_err_single: "fold_err f [x] s = f x s"
  by (cases "f x s") simp_all

lemma ring_shape:
  assumes "ring_wf gs" "r < length gs"
  shows "grid_wf (gs ! r)" "grid_wf (hd gs)" "same_shape (gs ! r) (hd gs)"
proof -
  have "gs ! r \<in> set gs" "hd gs \<in> set gs" using assms by (auto simp: ring_wf_def)
  then show "grid_wf (gs ! r)" "grid_wf (hd gs)" "same_shape (gs ! r) (hd gs)"
    using assms(1) by (auto simp: ring_wf_def list_all_iff)
qed

lemma shape_offsets:
  assumes "grid_wf g" "grid_wf g0" "same_shape g g0"
  shows "NmeshTotRealSlice g = NmeshTotRealSlice g0"
    "get_real_grid g = NmeshTotRealSlice g0 * n_extra_x_slices_left g0"
    "get_real_grid_right g = NmeshTotRealSlice g0 * n_extra_x_slices_left g0
        + NmeshTotRealSlice g0 * Local_nx g0"
    "get_real_grid_left g = 0"
    "int (length (fourier_grid_raw g)) = NmeshTotRealSlice g0 * n_extra_x_slices_left g0
        + NmeshTotRealSlice g0 * Local_nx g0 + NmeshTotRealSlice g0 * n_extra_x_slices_right g0"
    "Local_nx g = Local_nx g0" "n_extra_x_slices_left g = n_extra_x_slices_left g0"
  using assms
  by (simp_all add: grid_wf_def same_shape_def get_real_grid_def get_real_grid_right_def
        get_real_grid_left_def algebra_simps)

lemma wf_slice_pos: "grid_wf g \<Longrightarrow> 1 \<le> NmeshTotRealSlice g"
proof -
  assume wf: "grid_wf g"
  have M: "1 \<le> Nmesh g" using wf by (simp add: grid_wf_def)
  have "1 \<le> Nmesh g div 2 + 1" using M by simp
  moreover have "1 \<le> Nmesh g ^ (N_dim g - 2)" using M by simp
  ultimately have "1 * 1 \<le> (Nmesh g div 2 + 1) * Nmesh g ^ (N_dim g - 2)"
    by (intro mult_mono) auto
  then show ?thesis using wf by (simp add: grid_wf_def)
qed

lemma bytes_slice_ok:
  "1 \<le> NmeshTotRealSlice g \<Longrightarrow> NmeshTotRealSlice g * 8 < 2147483648 \<Longrightarrow>
   bytes_slice g = 8 * NmeshTotRealSlice g"
  by (simp add: bytes_slice_def to_int32_id)

lemma cmod_ring: "0 \<le> a \<Longrightarrow> 0 < P \<Longrightarrow> nat (cmod a (int P)) < P"
  by (simp add: cmod_nonneg nat_less_iff)

lemma mult_Suc_le: "0 \<le> (S::int) \<Longrightarrow> j + 1 \<le> m \<Longrightarrow> S * j + S \<le> S * m"
proof -
  assume "0 \<le> S" "j + 1 \<le> m"
  then have "S * (j + 1) \<le> S * m" by (intro mult_left_mono) auto
  then show ?thesis by (simp add: algebra_simps)
qed

lemma ring_loop_right:
  assumes ring: "ring_wf gs"
    and small: "NmeshTotRealSlice (hd gs) * 8 < 2147483648"
    and n: "int n \<le> n_to_recv_right (hd gs)"
    and S: "S = NmeshTotRealSlice (hd gs)"
    and G: "G = S * n_extra_x_slices_left (hd gs)"
    and R: "R = G + S * Local_nx (hd gs)"
  shows "fold_err
           (\<lambda>i. sendrecv_round
                   (\<lambda>g. get_real_grid g + NmeshTotRealSlice g * i)
                   (\<lambda>g. get_real_grid_right g + NmeshTotRealSlice g * i)
                   (\<lambda>ThisTask. cmod (ThisTask + 1) (int (length gs))))
           (map int [0..<n]) gs
         = Inr (ring_windows (\<lambda>r. nat (cmod (int r + 1) (int (length gs)))) gs gs
                  R (R + S * int n) (- (S * Local_nx (hd gs))))"
  using n
proof (induction n)
  case 0
  show ?case by (simp add: ring_windows_empty)
next
  case (Suc n)
  let ?nb = "\<lambda>r. nat (cmod (int r + 1) (int (length gs)))"
  let ?nx = "Local_nx (hd gs)"
  let ?gR = "n_extra_x_slices_right (hd gs)"
  let ?len = "G + S * ?nx + S * ?gR"
  have wf0: "grid_wf (hd gs)" using ring by (auto simp: ring_wf_def list_all_iff)
  have S1: "1 \<le> S" unfolding S by (rule wf_slice_pos[OF wf0])
  have P: "0 < length gs" using ring by (simp add: ring_wf_def)
  have nn: "int n + 1 \<le> ?nx" "int n + 1 \<le> ?gR"
    using Suc.prems by (auto simp: n_to_recv_right_def split: if_splits)
  have gL: "0 \<le> G" unfolding G using S1 wf0 by (simp add: grid_wf_def)
  have nx: "S * int n + S \<le> S * ?nx" by (rule mult_Suc_le) (use S1 nn in auto)
  have gr: "S * int n + S \<le> S * ?gR" by (rule mult_Suc_le) (use S1 nn in auto)
  have n0: "0 \<le> S * int n" using S1 by simp
  have pos: "0 \<le> S * ?nx" "0 \<le> S * ?gR" using S1 wf0 by (simp_all add: grid_wf_def)
  have IH: "fold_err
           (\<lambda>i. sendrecv_round
                   (\<lambda>g. get_real_grid g + NmeshTotRealSlice g * i)
                   (\<lambda>g. get_real_grid_right g + NmeshTotRealSlice g * i)
                   (\<lambda>ThisTask. cmod (ThisTask + 1) (int (length gs))))
           (map int [0..<n]) gs
         = Inr (ring_windows ?nb gs gs R (R + S * int n) (- (S * ?nx)))"
    by (rule Suc.IH) (use Suc.prems in simp)
  have sh: "NmeshTotRealSlice ((gs ! r)\<lparr>fourier_grid_raw := raw\<rparr>) = S"
      "get_real_grid ((gs ! r)\<lparr>fourier_grid_raw := raw\<rparr>) = G"
      "get_real_grid_right ((gs ! r)\<lparr>fourier_grid_raw := raw\<rparr>) = R"
      "int (length (fourier_grid_raw (gs ! r))) = ?len"
    if "r < length gs" for r raw
    using shape_offsets[OF ring_shape[OF ring that]]
    by (simp_all add: S G R get_real_grid_def get_real_grid_right_def get_real_grid_left_def)
  have round: "sendrecv_round
                   (\<lambda>g. get_real_grid g + NmeshTotRealSlice g * int n)
                   (\<lambda>g. get_real_grid_right g + NmeshTotRealSlice g * int n)
                   (\<lambda>ThisTask. cmod (ThisTask + 1) (int (length gs)))
                   (ring_windows ?nb gs gs R (R + S * int n) (- (S * ?nx)))
         = Inr (ring_windows ?nb gs gs R (R + S * int n + S) (- (S * ?nx)))"
  proof (rule ring_round_right[where len = ?len])
    fix r assume r: "r < length gs"
    show "int (length (fourier_grid_raw (gs ! r))) = ?len" by (rule sh(4)[OF r])
    show "int (length (fourier_grid_raw (gs ! r))) = ?len" by (rule sh(4)[OF r])
    show "?nb r < length gs" by (rule cmod_ring) (use P in auto)
    show "nat (cmod (int r + 1) (int (length gs))) = ?nb r" by simp
    fix raw
    show "get_real_grid ((gs ! r)\<lparr>fourier_grid_raw := raw\<rparr>)
            + NmeshTotRealSlice ((gs ! r)\<lparr>fourier_grid_raw := raw\<rparr>) * int n
          = R + S * int n + - (S * ?nx)"
      unfolding sh(1,2)[OF r] R by simp
    show "get_real_grid_right ((gs ! r)\<lparr>fourier_grid_raw := raw\<rparr>)
            + NmeshTotRealSlice ((gs ! r)\<lparr>fourier_grid_raw := raw\<rparr>) * int n
          = R + S * int n"
      unfolding sh(1,3)[OF r] by simp
    show "bytes_slice ((gs ! r)\<lparr>fourier_grid_raw := raw\<rparr>) = 8 * S"
      using bytes_slice_ok[of "(gs ! r)\<lparr>fourier_grid_raw := raw\<rparr>"] sh(1)[OF r, of raw] S1 small S
      by simp
  next
    show "0 \<le> S" using S1 by simp
    show "0 \<le> R + S * int n + - (S * ?nx)" unfolding R using gL n0 by simp
    show "R + S * int n + - (S * ?nx) + S \<le> ?len"
      unfolding R using nx pos by simp
    show "0 \<le> R + S * int n" unfolding R using gL n0 pos by simp
    show "R + S * int n + S \<le> ?len" unfolding R using gr by simp
    show "R \<le> R + S * int n" using n0 by simp
    show "R + S * int n + - (S * ?nx) + S \<le> R \<or> R + S * int n \<le> R + S * int n + - (S * ?nx)"
      using nx by simp
  qed simp
  have e: "R + S * int (Suc n) = R + S * int n + S" by (simp add: algebra_simps)
  show ?case
    unfolding upt_Suc_append[OF le0] map_append fold_err_append IH e
    by (simp only: bind_err_def sum.case list.map fold_err_single round)
qed


lemma ring_loop_left:
  assumes ring: "ring_wf gs"
    and small: "NmeshTotRealSlice (hd gs) * 8 < 2147483648"
    and n: "int n \<le> n_to_recv_left (hd gs)"
    and S: "S = NmeshTotRealSlice (hd gs)"
    and G: "G = S * n_extra_x_slices_left (hd gs)"
    and R: "R = G + S * Local_nx (hd gs)"
    and gs1: "gs1 = ring_windows nb1 gs gs R hi1 d1"
  shows "fold_err
           (\<lambda>i. sendrecv_round
                   (\<lambda>g. get_real_grid g + NmeshTotRealSlice g * (Local_nx g - 1 - i))
                   (\<lambda>g. get_real_grid_left g
                           + NmeshTotRealSlice g * (n_extra_x_slices_left g - 1 - i))
                   (\<lambda>ThisTask. cmod (ThisTask - 1 + int (length gs)) (int (length gs))))
           (map int [0..<n]) gs1
         = Inr (ring_windows (\<lambda>r. nat (cmod (int r - 1 + int (length gs)) (int (length gs)))) gs gs1
                  (G - S * int n) G (S * Local_nx (hd gs)))"
  using n
proof (induction n)
  case 0
  show ?case by (simp add: ring_windows_empty)
next
  case (Suc n)
  let ?nb = "\<lambda>r. nat (cmod (int r - 1 + int (length gs)) (int (length gs)))"
  let ?nx = "Local_nx (hd gs)"
  let ?gL = "n_extra_x_slices_left (hd gs)"
  let ?gR = "n_extra_x_slices_right (hd gs)"
  let ?len = "G + S * ?nx + S * ?gR"
  have wf0: "grid_wf (hd gs)" using ring by (auto simp: ring_wf_def list_all_iff)
  have S1: "1 \<le> S" unfolding S by (rule wf_slice_pos[OF wf0])
  have P: "0 < length gs" using ring by (simp add: ring_wf_def)
  have l1: "length gs1 = length gs" by (simp add: gs1)
  have nn: "int n + 1 \<le> ?nx" "int n + 1 \<le> ?gL"
    using Suc.prems by (auto simp: n_to_recv_left_def split: if_splits)
  have nx: "S * int n + S \<le> S * ?nx" by (rule mult_Suc_le) (use S1 nn in auto)
  have gl: "S * int n + S \<le> G" unfolding G by (rule mult_Suc_le) (use S1 nn in auto)
  have n0: "0 \<le> S * int n" using S1 by simp
  have pos: "0 \<le> S * ?nx" "0 \<le> S * ?gR" using S1 wf0 by (simp_all add: grid_wf_def)
  have IH: "fold_err
           (\<lambda>i. sendrecv_round
                   (\<lambda>g. get_real_grid g + NmeshTotRealSlice g * (Local_nx g - 1 - i))
                   (\<lambda>g. get_real_grid_left g
                           + NmeshTotRealSlice g * (n_extra_x_slices_left g - 1 - i))
                   (\<lambda>ThisTask. cmod (ThisTask - 1 + int (length gs)) (int (length gs))))
           (map int [0..<n]) gs1
         = Inr (ring_windows ?nb gs gs1 (G - S * int n) G (S * ?nx))"
    by (rule Suc.IH) (use Suc.prems in simp)
  have g1: "(gs1 ! r)\<lparr>fourier_grid_raw := raw\<rparr> = (gs ! r)\<lparr>fourier_grid_raw := raw\<rparr>"
    if "r < length gs" for r raw
    by (simp add: gs1 nth_ring_windows[OF that])
  have sh: "NmeshTotRealSlice ((gs ! r)\<lparr>fourier_grid_raw := raw\<rparr>) = S"
      "get_real_grid ((gs ! r)\<lparr>fourier_grid_raw := raw\<rparr>) = G"
      "get_real_grid_left ((gs ! r)\<lparr>fourier_grid_raw := raw\<rparr>) = 0"
      "Local_nx ((gs ! r)\<lparr>fourier_grid_raw := raw\<rparr>) = ?nx"
      "n_extra_x_slices_left ((gs ! r)\<lparr>fourier_grid_raw := raw\<rparr>) = ?gL"
      "int (length (fourier_grid_raw (gs ! r))) = ?len"
    if "r < length gs" for r raw
    using shape_offsets[OF ring_shape[OF ring that]]
    by (simp_all add: S G R get_real_grid_def get_real_grid_right_def get_real_grid_left_def)
  have len1: "int (length (fourier_grid_raw (gs1 ! r))) = ?len" if "r < length gs" for r
    using sh(6)[OF that] by (simp add: gs1 nth_ring_windows[OF that])
  have round: "sendrecv_round
                   (\<lambda>g. get_real_grid g + NmeshTotRealSlice g * (Local_nx g - 1 - int n))
                   (\<lambda>g. get_real_grid_left g
                           + NmeshTotRealSlice g * (n_extra_x_slices_left g - 1 - int n))
                   (\<lambda>ThisTask. cmod (ThisTask - 1 + int (length gs)) (int (length gs)))
                   (ring_windows ?nb gs gs1 (G - S * int n) G (S * ?nx))
         = Inr (ring_windows ?nb gs gs1 (G - S * int n - S) G (S * ?nx))"
  proof (rule ring_round_left[where len = ?len])
    fix r assume r: "r < length gs1"
    then have r': "r < length gs" by (simp add: l1)
    show "int (length (fourier_grid_raw (gs1 ! r))) = ?len" by (rule len1[OF r'])
    show "int (length (fourier_grid_raw (gs ! r))) = ?len" by (rule sh(6)[OF r'])
    have "0 \<le> int r - 1 + int (length gs)" using P by linarith
    then show "?nb r < length gs1" unfolding l1 by (rule cmod_ring) (use P in auto)
    show "nat (cmod (int r - 1 + int (length gs)) (int (length gs))) = ?nb r" by simp
    fix raw
    show "get_real_grid ((gs1 ! r)\<lparr>fourier_grid_raw := raw\<rparr>)
            + NmeshTotRealSlice ((gs1 ! r)\<lparr>fourier_grid_raw := raw\<rparr>)
              * (Local_nx ((gs1 ! r)\<lparr>fourier_grid_raw := raw\<rparr>) - 1 - int n)
          = G - S * int n - S + S * ?nx"
      unfolding g1[OF r'] sh(1,2,4)[OF r'] by (simp add: algebra_simps)
    show "get_real_grid_left ((gs1 ! r)\<lparr>fourier_grid_raw := raw\<rparr>)
            + NmeshTotRealSlice ((gs1 ! r)\<lparr>fourier_grid_raw := raw\<rparr>)
              * (n_extra_x_slices_left ((gs1 ! r)\<lparr>fourier_grid_raw := raw\<rparr>) - 1 - int n)
          = G - S * int n - S"
      unfolding g1[OF r'] sh(1,3,5)[OF r'] G by (simp add: algebra_simps)
    show "bytes_slice ((gs1 ! r)\<lparr>fourier_grid_raw := raw\<rparr>) = 8 * S"
      unfolding g1[OF r']
      using bytes_slice_ok[of "(gs ! r)\<lparr>fourier_grid_raw := raw\<rparr>"] sh(1)[OF r', of raw] S1 small S
      by simp
  next
    show "0 \<le> S" using S1 by simp
    show "0 \<le> G - S * int n - S + S * ?nx" using gl pos by simp
    show "G - S * int n + S * ?nx \<le> ?len" using n0 pos by simp
    show "0 \<le> G - S * int n - S" using gl by simp
    show "G - S * int n \<le> ?len" using n0 pos by simp
    show "G - S * int n \<le> G" using n0 by simp
    show "G - S * int n + S * ?nx \<le> G - S * int n \<or> G \<le> G - S * int n - S + S * ?nx"
      using nx by simp
  next
    fix r u assume r: "r < length gs1"
      and u: "G - S * int n - S + S * ?nx \<le> int u" "int u < G - S * int n + S * ?nx"
    have r': "r < length gs" using r by (simp add: l1)
    have uR: "int u < R" unfolding R using u n0 by linarith
    have ul: "u < length (fourier_grid_raw (gs ! r))"
      using sh(6)[OF r'] uR pos unfolding R by linarith
    have nw: "\<not> (R \<le> int u \<and> int u < hi1)" using uR by simp
    have "fourier_grid_raw (gs1 ! r)
          = window_copy (fourier_grid_raw (gs ! nb1 r)) (fourier_grid_raw (gs ! r)) R hi1 d1"
      by (simp add: gs1 nth_ring_windows[OF r'])
    then show "fourier_grid_raw (gs1 ! r) ! u = fourier_grid_raw (gs ! r) ! u"
      by (simp only: nth_window_copy[OF ul] if_not_P[OF nw])
  qed
  have e: "G - S * int (Suc n) = G - S * int n - S" by (simp add: algebra_simps)
  show ?case
    unfolding upt_Suc_append[OF le0] map_append fold_err_append IH e
    by (simp only: bind_err_def sum.case list.map fold_err_single round)
qed


lemma n_to_recv_nonneg:
  "grid_wf g \<Longrightarrow> 0 \<le> n_to_recv_right g \<and> 0 \<le> n_to_recv_left g"
  by (simp add: grid_wf_def n_to_recv_right_def n_to_recv_left_def)

lemma communicate_boundaries_mpi_closed:
  assumes ring: "ring_wf gs"
    and small: "NmeshTotRealSlice (hd gs) * 8 < 2147483648"
    and S: "S = NmeshTotRealSlice (hd gs)"
    and G: "G = S * n_extra_x_slices_left (hd gs)"
    and R: "R = G + S * Local_nx (hd gs)"
  shows "communicate_boundaries_mpi gs =
     Inr (ring_windows (\<lambda>r. nat (cmod (int r - 1 + int (length gs)) (int (length gs)))) gs
            (ring_windows (\<lambda>r. nat (cmod (int r + 1) (int (length gs)))) gs gs
               R (R + S * n_to_recv_right (hd gs)) (- (S * Local_nx (hd gs))))
            (G - S * n_to_recv_left (hd gs)) G (S * Local_nx (hd gs)))"
proof -
  obtain g0 rest where gs: "gs = g0 # rest" using ring by (cases gs) (auto simp: ring_wf_def)
  have hd: "hd gs = g0" by (simp add: gs)
  have wf0: "grid_wf (hd gs)" using ring by (auto simp: ring_wf_def list_all_iff)
  note nn = n_to_recv_nonneg[OF wf0]
  have l1: "fold_err
           (\<lambda>i. sendrecv_round
                   (\<lambda>g. get_real_grid g + NmeshTotRealSlice g * i)
                   (\<lambda>g. get_real_grid_right g + NmeshTotRealSlice g * i)
                   (\<lambda>ThisTask. cmod (ThisTask + 1) (int (length gs))))
           (map int [0..<nat (n_to_recv_right (hd gs))]) gs
         = Inr (ring_windows (\<lambda>r. nat (cmod (int r + 1) (int (length gs)))) gs gs
                  R (R + S * int (nat (n_to_recv_right (hd gs)))) (- (S * Local_nx (hd gs))))"
    by (rule ring_loop_right[OF ring small _ S G R]) (use nn in simp)
  have l2: "fold_err
           (\<lambda>i. sendrecv_round
                   (\<lambda>g. get_real_grid g + NmeshTotRealSlice g * (Local_nx g - 1 - i))
                   (\<lambda>g. get_real_grid_left g
                           + NmeshTotRealSlice g * (n_extra_x_slices_left g - 1 - i))
                   (\<lambda>ThisTask. cmod (ThisTask - 1 + int (length gs)) (int (length gs))))
           (map int [0..<nat (n_to_recv_left (hd gs))])
           (ring_windows (\<lambda>r. nat (cmod (int r + 1) (int (length gs)))) gs gs
                  R (R + S * int (nat (n_to_recv_right (hd gs)))) (- (S * Local_nx (hd gs))))
         = Inr (ring_windows (\<lambda>r. nat (cmod (int r - 1 + int (length gs)) (int (length gs)))) gs
                  (ring_windows (\<lambda>r. nat (cmod (int r + 1) (int (length gs)))) gs gs
                     R (R + S * int (nat (n_to_recv_right (hd gs)))) (- (S * Local_nx (hd gs))))
                  (G - S * int (nat (n_to_recv_left (hd gs)))) G (S * Local_nx (hd gs)))"
    by (rule ring_loop_left[OF ring small _ S G R refl]) (use nn in simp)
  have "communicate_boundaries_mpi gs =
     bind_err (fold_err
           (\<lambda>i. sendrecv_round
                   (\<lambda>g. get_real_grid g + NmeshTotRealSlice g * i)
                   (\<lambda>g. get_real_grid_right g + NmeshTotRealSlice g * i)
                   (\<lambda>ThisTask. cmod (ThisTask + 1) (int (length gs))))
           (map int [0..<nat (n_to_recv_right (hd gs))]) gs)
       (fold_err
           (\<lambda>i. sendrecv_round
                   (\<lambda>g. get_real_grid g + NmeshTotRealSlice g * (Local_nx g - 1 - i))
                   (\<lambda>g. get_real_grid_left g
                           + NmeshTotRealSlice g * (n_extra_x_slices_left g - 1 - i))
                   (\<lambda>ThisTask. cmod (ThisTask - 1 + int (length gs)) (int (length gs))))
           (map int [0..<nat (n_to_recv_left (hd gs))]))"
    unfolding communicate_boundaries_mpi_def hd unfolding gs by (simp add: Let_def)
  then show ?thesis
    unfolding l1 using l2 nn by (simp add: bind_err_def)
qed


lemma local_loop_right:
  assumes wf: "grid_wf g"
    and small: "NmeshTotRealSlice g * 8 < 2147483648"
    and n: "int n \<le> n_to_recv_right g"
    and S: "S = NmeshTotRealSlice g"
    and G: "G = S * n_extra_x_slices_left g"
    and R: "R = G + S * Local_nx g"
    and len: "int (length raw0) = G + S * Local_nx g + S * n_extra_x_slices_right g"
  shows "fold_err
           (\<lambda>i raw. memcpy_reals raw
                       (get_real_grid_right g + NmeshTotRealSlice g * i)
                       (get_real_grid g + NmeshTotRealSlice g * i)
                       (bytes_slice g))
           (map int [0..<n]) raw0
         = Inr (window_copy raw0 raw0 R (R + S * int n) (- (S * Local_nx g)))"
  using n
proof (induction n)
  case 0
  show ?case by (simp add: window_copy_empty)
next
  case (Suc n)
  let ?nx = "Local_nx g"
  let ?gR = "n_extra_x_slices_right g"
  let ?W = "window_copy raw0 raw0 R (R + S * int n) (- (S * ?nx))"
  have S1: "1 \<le> S" unfolding S by (rule wf_slice_pos[OF wf])
  have nn: "int n + 1 \<le> ?nx" "int n + 1 \<le> ?gR"
    using Suc.prems by (auto simp: n_to_recv_right_def split: if_splits)
  have gL: "0 \<le> G" unfolding G using S1 wf by (simp add: grid_wf_def)
  have nx: "S * int n + S \<le> S * ?nx" by (rule mult_Suc_le) (use S1 nn in auto)
  have gr: "S * int n + S \<le> S * ?gR" by (rule mult_Suc_le) (use S1 nn in auto)
  have n0: "0 \<le> S * int n" using S1 by simp
  have pos: "0 \<le> S * ?nx" "0 \<le> S * ?gR" using S1 wf by (simp_all add: grid_wf_def)
  have IH: "fold_err
           (\<lambda>i raw. memcpy_reals raw
                       (get_real_grid_right g + NmeshTotRealSlice g * i)
                       (get_real_grid g + NmeshTotRealSlice g * i)
                       (bytes_slice g))
           (map int [0..<n]) raw0 = Inr ?W"
    by (rule Suc.IH) (use Suc.prems in simp)
  have off: "get_real_grid g = G" "get_real_grid_right g = R"
    by (simp_all add: get_real_grid_def get_real_grid_right_def get_real_grid_left_def S G R
          algebra_simps)
  have by8: "bytes_slice g = 8 * S" using bytes_slice_ok[of g] S1 small S by simp
  have lW: "int (length ?W) = G + S * ?nx + S * ?gR" using len by simp
  have cp: "memcpy_reals ?W (R + S * int n) (G + S * int n) (8 * S)
        = Inr (window_copy ?W ?W (R + S * int n) (R + S * int n + (8 * S) div 8)
                 ((G + S * int n) - (R + S * int n)))"
  proof (rule memcpy_reals_window)
    show "0 \<le> 8 * S" using S1 by simp
    show "0 \<le> G + S * int n" using gL n0 by simp
    show "G + S * int n + 8 * S div 8 \<le> int (length ?W)" using nx pos len by simp
    show "0 \<le> R + S * int n" unfolding R using gL n0 pos by simp
    show "R + S * int n + 8 * S div 8 \<le> int (length ?W)" using gr len by (simp add: R)
    show "R + S * int n + 8 * S div 8 \<le> G + S * int n \<or> G + S * int n + 8 * S div 8 \<le> R + S * int n"
      unfolding R using nx n0 by simp
  qed
  have d: "(G + S * int n) - (R + S * int n) = - (S * ?nx)" unfolding R by simp
  have ext: "window_copy ?W ?W (R + S * int n) (R + S * int n + S) (- (S * ?nx))
        = window_copy raw0 raw0 R (R + S * int n + S) (- (S * ?nx))"
  proof (rule window_extend_right)
    show "R \<le> R + S * int n" "R + S * int n \<le> R + S * int n + S" using n0 S1 by auto
    show "length ?W = length raw0" by simp
  next
    fix t assume t: "R + S * int n \<le> int t" "int t < R + S * int n + S" "t < length raw0"
    let ?u = "nat (int t + - (S * ?nx))"
    have tnn: "0 \<le> int t + - (S * ?nx)" using t gL n0 unfolding R by linarith
    have iu: "int ?u = int t + - (S * ?nx)" using tnn by simp
    have u: "G + S * int n \<le> int ?u" "int ?u < G + S * int n + S"
      using t iu unfolding R by linarith+
    have ul: "?u < length raw0" using u len nx pos by linarith
    have nw: "\<not> (R \<le> int ?u \<and> int ?u < R + S * int n)" using u nx unfolding R by linarith
    show "?W ! nat (int t + - (S * ?nx)) = raw0 ! nat (int t + - (S * ?nx))"
      by (simp only: nth_window_copy[OF ul] if_not_P[OF nw])
  qed
  have step: "memcpy_reals ?W (get_real_grid_right g + NmeshTotRealSlice g * int n)
                (get_real_grid g + NmeshTotRealSlice g * int n) (bytes_slice g)
        = Inr (window_copy raw0 raw0 R (R + S * int n + S) (- (S * ?nx)))"
    unfolding off by8 S[symmetric] cp d using ext by simp
  have e: "R + S * int (Suc n) = R + S * int n + S" by (simp add: algebra_simps)
  show ?case
    unfolding upt_Suc_append[OF le0] map_append fold_err_append IH e
    by (simp only: bind_err_def sum.case list.map fold_err_single step)
qed

lemma local_loop_left:
  assumes wf: "grid_wf g"
    and small: "NmeshTotRealSlice g * 8 < 2147483648"
    and n: "int n \<le> n_to_recv_left g"
    and S: "S = NmeshTotRealSlice g"
    and G: "G = S * n_extra_x_slices_left g"
    and R: "R = G + S * Local_nx g"
    and len: "int (length raw0) = G + S * Local_nx g + S * n_extra_x_slices_right g"
    and raw1: "raw1 = window_copy src1 raw0 R hi1 d1"
  shows "fold_err
           (\<lambda>i raw. memcpy_reals raw
                       (get_real_grid_left g
                          + NmeshTotRealSlice g * (n_extra_x_slices_left g - 1 - i))
                       (get_real_grid g + NmeshTotRealSlice g * (Local_nx g - 1 - i))
                       (bytes_slice g))
           (map int [0..<n]) raw1
         = Inr (window_copy raw0 raw1 (G - S * int n) G (S * Local_nx g))"
  using n
proof (induction n)
  case 0
  show ?case by (simp add: window_copy_empty)
next
  case (Suc n)
  let ?nx = "Local_nx g"
  let ?gL = "n_extra_x_slices_left g"
  let ?gR = "n_extra_x_slices_right g"
  let ?W = "window_copy raw0 raw1 (G - S * int n) G (S * ?nx)"
  have S1: "1 \<le> S" unfolding S by (rule wf_slice_pos[OF wf])
  have nn: "int n + 1 \<le> ?nx" "int n + 1 \<le> ?gL"
    using Suc.prems by (auto simp: n_to_recv_left_def split: if_splits)
  have nx: "S * int n + S \<le> S * ?nx" by (rule mult_Suc_le) (use S1 nn in auto)
  have gl: "S * int n + S \<le> G" unfolding G by (rule mult_Suc_le) (use S1 nn in auto)
  have n0: "0 \<le> S * int n" using S1 by simp
  have pos: "0 \<le> S * ?nx" "0 \<le> S * ?gR" using S1 wf by (simp_all add: grid_wf_def)
  have IH: "fold_err
           (\<lambda>i raw. memcpy_reals raw
                       (get_real_grid_left g
                          + NmeshTotRealSlice g * (n_extra_x_slices_left g - 1 - i))
                       (get_real_grid g + NmeshTotRealSlice g * (Local_nx g - 1 - i))
                       (bytes_slice g))
           (map int [0..<n]) raw1 = Inr ?W"
    by (rule Suc.IH) (use Suc.prems in simp)
  have off: "get_real_grid g + S * (?nx - 1 - int n) = G - S * int n - S + S * ?nx"
      "get_real_grid_left g + S * (?gL - 1 - int n) = G - S * int n - S"
    by (simp_all add: get_real_grid_def get_real_grid_left_def S G algebra_simps)
  have by8: "bytes_slice g = 8 * S" using bytes_slice_ok[of g] S1 small S by simp
  have l1: "length raw1 = length raw0" by (simp add: raw1)
  have lW: "int (length ?W) = G + S * ?nx + S * ?gR" using len l1 by simp
  have cp: "memcpy_reals ?W (G - S * int n - S) (G - S * int n - S + S * ?nx) (8 * S)
        = Inr (window_copy ?W ?W (G - S * int n - S) (G - S * int n - S + (8 * S) div 8)
                 ((G - S * int n - S + S * ?nx) - (G - S * int n - S)))"
  proof (rule memcpy_reals_window)
    show "0 \<le> 8 * S" using S1 by simp
    show "0 \<le> G - S * int n - S + S * ?nx" using gl pos by linarith
    show "G - S * int n - S + S * ?nx + 8 * S div 8 \<le> int (length ?W)"
      using n0 pos len l1 by simp
    show "0 \<le> G - S * int n - S" using gl by linarith
    show "G - S * int n - S + 8 * S div 8 \<le> int (length ?W)" using n0 pos len l1 by simp
    show "G - S * int n - S + 8 * S div 8 \<le> G - S * int n - S + S * ?nx
          \<or> G - S * int n - S + S * ?nx + 8 * S div 8 \<le> G - S * int n - S"
      using nx n0 by simp
  qed
  have ext: "window_copy ?W ?W (G - S * int n - S) (G - S * int n) (S * ?nx)
        = window_copy raw0 raw1 (G - S * int n - S) G (S * ?nx)"
  proof (rule window_extend_left)
    show "G - S * int n - S \<le> G - S * int n" "G - S * int n \<le> G" using n0 S1 by auto
  next
    fix t assume t: "G - S * int n - S \<le> int t" "int t < G - S * int n" "t < length raw1"
    let ?u = "nat (int t + S * ?nx)"
    have tnn: "0 \<le> int t + S * ?nx" using t pos by linarith
    have iu: "int ?u = int t + S * ?nx" using tnn by simp
    have u: "G - S * int n - S + S * ?nx \<le> int ?u" "int ?u < G - S * int n + S * ?nx"
      using t iu by linarith+
    have uG: "G \<le> int ?u" using u nx by linarith
    have uR: "int ?u < R" unfolding R using u n0 by linarith
    have ul: "?u < length raw0" using uR len pos unfolding R by linarith
    have ul1: "?u < length raw1" using ul l1 by simp
    have nw: "\<not> (G - S * int n \<le> int ?u \<and> int ?u < G)" using uG by linarith
    have nw1: "\<not> (R \<le> int ?u \<and> int ?u < hi1)" using uR by linarith
    have "?W ! ?u = raw1 ! ?u" by (simp only: nth_window_copy[OF ul1] if_not_P[OF nw])
    also have "\<dots> = raw0 ! ?u" unfolding raw1 by (simp only: nth_window_copy[OF ul] if_not_P[OF nw1])
    finally show "?W ! nat (int t + S * ?nx) = raw0 ! nat (int t + S * ?nx)" .
  qed
  have step: "memcpy_reals ?W
                (get_real_grid_left g + NmeshTotRealSlice g * (n_extra_x_slices_left g - 1 - int n))
                (get_real_grid g + NmeshTotRealSlice g * (Local_nx g - 1 - int n)) (bytes_slice g)
        = Inr (window_copy raw0 raw1 (G - S * int n - S) G (S * ?nx))"
    unfolding S[symmetric] off by8 cp using ext by simp
  have e: "G - S * int (Suc n) = G - S * int n - S" by (simp add: algebra_simps)
  show ?case
    unfolding upt_Suc_append[OF le0] map_append fold_err_append IH e
    by (simp only: bind_err_def sum.case list.map fold_err_single step)
qed

lemma communicate_boundaries_closed:
  assumes wf: "grid_wf g"
    and small: "NmeshTotRealSlice g * 8 < 2147483648"
    and S: "S = NmeshTotRealSlice g"
    and G: "G = S * n_extra_x_slices_left g"
    and R: "R = G + S * Local_nx g"
  shows "communicate_boundaries g =
     Inr (g\<lparr>fourier_grid_raw :=
            window_copy (fourier_grid_raw g)
              (window_copy (fourier_grid_raw g) (fourier_grid_raw g)
                 R (R + S * n_to_recv_right g) (- (S * Local_nx g)))
              (G - S * n_to_recv_left g) G (S * Local_nx g)\<rparr>)"
proof -
  note nn = n_to_recv_nonneg[OF wf]
  have len: "int (length (fourier_grid_raw g)) = G + S * Local_nx g + S * n_extra_x_slices_right g"
    using wf by (simp add: grid_wf_def S G algebra_simps)
  have l1: "fold_err
           (\<lambda>i raw. memcpy_reals raw
                       (get_real_grid_right g + NmeshTotRealSlice g * i)
                       (get_real_grid g + NmeshTotRealSlice g * i)
                       (bytes_slice g))
           (map int [0..<nat (n_to_recv_right g)]) (fourier_grid_raw g)
         = Inr (window_copy (fourier_grid_raw g) (fourier_grid_raw g) R
                  (R + S * int (nat (n_to_recv_right g))) (- (S * Local_nx g)))"
    by (rule local_loop_right[OF wf small _ S G R len]) (use nn in simp)
  have l2: "fold_err
           (\<lambda>i raw. memcpy_reals raw
                       (get_real_grid_left g
                          + NmeshTotRealSlice g * (n_extra_x_slices_left g - 1 - i))
                       (get_real_grid g + NmeshTotRealSlice g * (Local_nx g - 1 - i))
                       (bytes_slice g))
           (map int [0..<nat (n_to_recv_left g)])
           (window_copy (fourier_grid_raw g) (fourier_grid_raw g) R
                  (R + S * int (nat (n_to_recv_right g))) (- (S * Local_nx g)))
         = Inr (window_copy (fourier_grid_raw g)
                 (window_copy (fourier_grid_raw g) (fourier_grid_raw g) R
                    (R + S * int (nat (n_to_recv_right g))) (- (S * Local_nx g)))
                 (G - S * int (nat (n_to_recv_left g))) G (S * Local_nx g))"
    by (rule local_loop_left[OF wf small _ S G R len refl]) (use nn in simp)
  show ?thesis
    unfolding communicate_boundaries_def l1 using l2 nn by (simp add: bind_err_def)
qed


lemma take_drop_eqI:
  assumes "a + n \<le> length xs" "b + n \<le> length ys" "\<And>i. i < n \<Longrightarrow> xs ! (a + i) = ys ! (b + i)"
  shows "take n (drop a xs) = take n (drop b ys)"
  by (rule nth_equalityI) (use assms in auto)

text \<open>The three kinds of slabs in the storage that the two loops leave.\<close>

lemma exchanged_slabs:
  fixes S G R nx gL gR n1 n2 :: int
  assumes S1: "1 \<le> S" and gL: "0 \<le> gL" and gR: "0 \<le> gR" and nx: "1 \<le> nx"
    and G: "G = S * gL" and R: "R = G + S * nx"
    and n1: "0 \<le> n1" "n1 \<le> nx" "n1 \<le> gR" and n2: "0 \<le> n2" "n2 \<le> nx" "n2 \<le> gL"
    and len: "int (length raw) = G + S * nx + S * gR"
    and lenL: "int (length srcL) = G + S * nx + S * gR"
    and lenR: "int (length srcR) = G + S * nx + S * gR"
    and fin: "fin = window_copy srcL (window_copy srcR raw R (R + S * n1) (- (S * nx)))
                      (G - S * n2) G (S * nx)"
  shows "0 \<le> j \<Longrightarrow> j < n1 \<Longrightarrow>
           take (nat S) (drop (nat (S * (gL + (nx + j)))) fin)
             = take (nat S) (drop (nat (S * (gL + j))) srcR)"
    and "0 \<le> j \<Longrightarrow> j < n2 \<Longrightarrow>
           take (nat S) (drop (nat (S * (gL + (- 1 - j)))) fin)
             = take (nat S) (drop (nat (S * (gL + (nx - 1 - j)))) srcL)"
    and "0 \<le> s \<Longrightarrow> s < nx \<Longrightarrow>
           take (nat S) (drop (nat (S * (gL + s))) fin)
             = take (nat S) (drop (nat (S * (gL + s))) raw)"
proof -
  let ?W1 = "window_copy srcR raw R (R + S * n1) (- (S * nx))"
  have lf: "length fin = length raw" "length ?W1 = length raw" by (simp_all add: fin)
  have pos: "0 \<le> S * nx" "0 \<le> S * gR" "0 \<le> G" "0 \<le> S * n1" "0 \<le> S * n2"
    using S1 gL gR nx n1 n2 by (simp_all add: G)
  have m1: "S * n1 \<le> S * nx" "S * n1 \<le> S * gR" "S * n2 \<le> S * nx" "S * n2 \<le> G"
    using S1 n1 n2 by (simp_all add: G mult_left_mono)
  have nth_fin: "fin ! t = (if G - S * n2 \<le> int t \<and> int t < G then srcL ! nat (int t + S * nx)
                   else if R \<le> int t \<and> int t < R + S * n1 then srcR ! nat (int t + - (S * nx))
                   else raw ! t)"
    if "t < length raw" for t
    using that by (simp add: fin nth_window_copy)
  {
    assume j: "0 \<le> j" "j < n1"
    have sj: "0 \<le> S * j" "S * j + S \<le> S * n1"
      using S1 j by (auto intro: mult_Suc_le)
    have a: "S * (gL + (nx + j)) = R + S * j" "S * (gL + j) = G + S * j"
      by (simp_all add: G R algebra_simps)
    show "take (nat S) (drop (nat (S * (gL + (nx + j)))) fin)
             = take (nat S) (drop (nat (S * (gL + j))) srcR)"
      unfolding a
    proof (rule take_drop_eqI)
      show "nat (R + S * j) + nat S \<le> length fin"
        using sj m1 pos len S1 unfolding lf R by linarith
      show "nat (G + S * j) + nat S \<le> length srcR"
        using sj m1 pos lenR S1 by linarith
      fix i assume i: "i < nat S"
      let ?t = "nat (R + S * j) + i"
      have it: "int ?t = R + S * j + int i" using sj pos unfolding R by simp
      have tl: "?t < length raw" using it i sj m1 pos len unfolding R by linarith
      have c1: "\<not> (G - S * n2 \<le> int ?t \<and> int ?t < G)" using it sj pos unfolding R by linarith
      have c2: "R \<le> int ?t \<and> int ?t < R + S * n1" using it i sj by linarith
      have "fin ! ?t = srcR ! nat (int ?t + - (S * nx))"
        by (simp only: nth_fin[OF tl] if_not_P[OF c1] if_P[OF c2])
      also have "nat (int ?t + - (S * nx)) = nat (G + S * j) + i"
        using it sj pos unfolding R by linarith
      finally show "fin ! (nat (R + S * j) + i) = srcR ! (nat (G + S * j) + i)" .
    qed
  }
  {
    assume j: "0 \<le> j" "j < n2"
    have sj: "0 \<le> S * j" "S * j + S \<le> S * n2"
      using S1 j by (auto intro: mult_Suc_le)
    have a: "S * (gL + (- 1 - j)) = G - S * j - S" "S * (gL + (nx - 1 - j)) = R - S * j - S"
      by (simp_all add: G R algebra_simps)
    show "take (nat S) (drop (nat (S * (gL + (- 1 - j)))) fin)
             = take (nat S) (drop (nat (S * (gL + (nx - 1 - j)))) srcL)"
      unfolding a
    proof (rule take_drop_eqI)
      show "nat (G - S * j - S) + nat S \<le> length fin"
        using sj m1 pos len S1 unfolding lf by linarith
      show "nat (R - S * j - S) + nat S \<le> length srcL"
        using sj m1 pos lenL S1 unfolding R by linarith
      fix i assume i: "i < nat S"
      let ?t = "nat (G - S * j - S) + i"
      have it: "int ?t = G - S * j - S + int i" using sj m1 by linarith
      have tl: "?t < length raw" using it i sj m1 pos len by linarith
      have c1: "G - S * n2 \<le> int ?t \<and> int ?t < G" using it i sj by linarith
      have "fin ! ?t = srcL ! nat (int ?t + S * nx)"
        by (simp only: nth_fin[OF tl] if_P[OF c1])
      also have "nat (int ?t + S * nx) = nat (R - S * j - S) + i"
        using it sj m1 pos unfolding R by linarith
      finally show "fin ! (nat (G - S * j - S) + i) = srcL ! (nat (R - S * j - S) + i)" .
    qed
  }
  {
    assume s: "0 \<le> s" "s < nx"
    have ss: "0 \<le> S * s" "S * s + S \<le> S * nx"
      using S1 s by (auto intro: mult_Suc_le)
    have a: "S * (gL + s) = G + S * s" by (simp add: G algebra_simps)
    show "take (nat S) (drop (nat (S * (gL + s))) fin)
             = take (nat S) (drop (nat (S * (gL + s))) raw)"
      unfolding a
    proof (rule take_drop_eqI)
      show "nat (G + S * s) + nat S \<le> length fin"
        using ss pos len S1 unfolding lf by linarith
      show "nat (G + S * s) + nat S \<le> length raw"
        using ss pos len S1 by linarith
      fix i assume i: "i < nat S"
      let ?t = "nat (G + S * s) + i"
      have it: "int ?t = G + S * s + int i" using ss pos by linarith
      have tl: "?t < length raw" using it i ss pos len by linarith
      have c1: "\<not> (G - S * n2 \<le> int ?t \<and> int ?t < G)" using it ss by linarith
      have c2: "\<not> (R \<le> int ?t \<and> int ?t < R + S * n1)" using it i ss unfolding R by linarith
      show "fin ! (nat (G + S * s) + i) = raw ! (nat (G + S * s) + i)"
        by (simp only: nth_fin[OF tl] if_not_P[OF c1] if_not_P[OF c2])
    qed
  }
qed


lemma slab_unfold:
  assumes "grid_wf g" "grid_wf g0" "same_shape g g0"
  shows "slab (g\<lparr>fourier_grid_raw := raw\<rparr>) s =
     take (nat (NmeshTotRealSlice g0))
       (drop (nat (NmeshTotRealSlice g0 * (n_extra_x_slices_left g0 + s))) raw)"
  using shape_offsets[OF assms]
  by (simp add: slab_def get_real_grid_by_slice_def get_real_grid_left_def)

lemma nat_cmod_next: "0 < P \<Longrightarrow> nat (cmod (int r + 1) (int P)) = (r + 1) mod P"
  by (simp add: cmod_nonneg nat_mod_distrib nat_add_distrib)

lemma nat_cmod_prev:
  "0 < P \<Longrightarrow> nat (cmod (int r - 1 + int P) (int P)) = (r + P - 1) mod P"
proof -
  assume P: "0 < P"
  have e: "int r - 1 + int P = int (r + P - 1)" using P by linarith
  show ?thesis unfolding e using P by (simp add: cmod_nonneg nat_mod_distrib del: of_nat_diff)
qed

text \<open>A slab of \<open>2\<^sup>3\<^sup>1\<close> bytes or more: the byte count wraps to a negative \<^verbatim>\<open>int\<close>.\<close>

lemma halo_exchange_overflow:
  assumes "1 \<le> n_to_recv_right g" "2147483648 \<le> NmeshTotRealSlice g * 8"
    "NmeshTotRealSlice g * 8 < 4294967296"
  shows "communicate_boundaries g = Inl UndefinedBehaviour"
proof -
  have "(NmeshTotRealSlice g * 8 + 2147483648) mod 4294967296
        = NmeshTotRealSlice g * 8 - 2147483648"
    using assms(2,3) by (intro int_mod_pos_eq[where q = 1]) auto
  then have b: "bytes_slice g < 0"
    using assms(3) by (simp add: bytes_slice_def to_int32_def)
  have u: "[0..<nat (n_to_recv_right g)] = 0 # [1..<nat (n_to_recv_right g)]"
    using assms(1) by (simp add: upt_rec)
  have m: "memcpy_reals raw recvbuf sendbuf (bytes_slice g) = Inl UndefinedBehaviour"
    for raw recvbuf sendbuf
    using b by (simp add: memcpy_reals_def Let_def)
  show ?thesis
    unfolding communicate_boundaries_def u by (simp add: m bind_err_def)
qed

text \<open>
  \<^bold>\<open>C3\<close>, as amended.  For every ring of \<open>P\<close> processes whose grids have one
  shape, with ghost widths \<open>(gL, gR)\<close> and \<open>local_nx\<close> owned slabs per process,
  and whose slabs have fewer than \<open>2\<^sup>3\<^sup>1\<close> bytes (\<open>8 * NmeshTotRealSlice < 2\<^sup>3\<^sup>1\<close>:
  the byte count of a slab is an \<^verbatim>\<open>int\<close>), \<^verbatim>\<open>communicate_boundaries\<close> returns
  and leaves, in every process \<open>r\<close>: in the first \<open>min(gR, local_nx)\<close> slabs of
  the right ghost region the \<open>min(gR, local_nx)\<close> leftmost owned slabs of the
  right neighbour \<open>r + 1\<close>; in the last \<open>min(gL, local_nx)\<close> slabs of the left
  ghost region the \<open>min(gL, local_nx)\<close> rightmost owned slabs of the left
  neighbour \<open>r - 1\<close>; and the owned slabs as they were.  With \<open>P = 1\<close> both
  neighbours are the process itself, and the result is the one of the build
  without MPI, which copies inside the one storage.
\<close>

theorem halo_exchange_ring:
  assumes ring: "ring_wf gs" and small: "NmeshTotRealSlice (hd gs) * 8 < 2147483648"
  shows "\<exists>gs'. communicate_boundaries_mpi gs = Inr gs' \<and> length gs' = length gs
    \<and> (\<forall>r<length gs.
         (\<forall>j. 0 \<le> j \<and> j < min (n_extra_x_slices_right (hd gs)) (Local_nx (hd gs)) \<longrightarrow>
             slab (gs' ! r) (Local_nx (hd gs) + j) = slab (gs ! ((r + 1) mod length gs)) j)
       \<and> (\<forall>j. 0 \<le> j \<and> j < min (n_extra_x_slices_left (hd gs)) (Local_nx (hd gs)) \<longrightarrow>
             slab (gs' ! r) (- 1 - j)
               = slab (gs ! ((r + length gs - 1) mod length gs)) (Local_nx (hd gs) - 1 - j))
       \<and> (\<forall>s. 0 \<le> s \<and> s < Local_nx (hd gs) \<longrightarrow> slab (gs' ! r) s = slab (gs ! r) s))
    \<and> (length gs = 1 \<longrightarrow> communicate_boundaries (hd gs) = Inr (hd gs'))"
proof -
  define S where "S = NmeshTotRealSlice (hd gs)"
  define gL where "gL = n_extra_x_slices_left (hd gs)"
  define gR where "gR = n_extra_x_slices_right (hd gs)"
  define nx where "nx = Local_nx (hd gs)"
  define G where "G = S * gL"
  define R where "R = G + S * nx"
  define n1 where "n1 = n_to_recv_right (hd gs)"
  define n2 where "n2 = n_to_recv_left (hd gs)"
  define P where "P = length gs"
  define nxt where "nxt = (\<lambda>r. nat (cmod (int r + 1) (int P)))"
  define prv where "prv = (\<lambda>r. nat (cmod (int r - 1 + int P) (int P)))"
  define W1 where "W1 = (\<lambda>r. window_copy (fourier_grid_raw (gs ! nxt r)) (fourier_grid_raw (gs ! r))
                               R (R + S * n1) (- (S * nx)))"
  define W2 where "W2 = (\<lambda>r. window_copy (fourier_grid_raw (gs ! prv r)) (W1 r)
                               (G - S * n2) G (S * nx))"
  define gs' where "gs' = ring_windows prv gs (ring_windows nxt gs gs R (R + S * n1) (- (S * nx)))
                            (G - S * n2) G (S * nx)"
  have P: "0 < P" using ring by (simp add: ring_wf_def P_def)
  have wf0: "grid_wf (hd gs)" using ring by (auto simp: ring_wf_def list_all_iff)
  have S1: "1 \<le> S" unfolding S_def by (rule wf_slice_pos[OF wf0])
  have g0: "0 \<le> gL" "0 \<le> gR" "1 \<le> nx" using wf0 by (simp_all add: grid_wf_def gL_def gR_def nx_def)
  have n1: "n1 = min gR nx" "0 \<le> n1" "n1 \<le> nx" "n1 \<le> gR"
    using g0 by (auto simp: n1_def n_to_recv_right_def gR_def nx_def)
  have n2: "n2 = min gL nx" "0 \<le> n2" "n2 \<le> nx" "n2 \<le> gL"
    using g0 by (auto simp: n2_def n_to_recv_left_def gL_def nx_def)
  have closed: "communicate_boundaries_mpi gs = Inr gs'"
    unfolding gs'_def prv_def nxt_def P_def n1_def n2_def nx_def
    by (rule communicate_boundaries_mpi_closed[OF ring small])
       (simp_all add: S_def G_def R_def gL_def nx_def)
  have lg: "length gs' = length gs" by (simp add: gs'_def)
  have nb: "nxt r = (r + 1) mod P" "prv r = (r + P - 1) mod P" "nxt r < P" "prv r < P" for r
    using P by (simp_all add: nxt_def prv_def nat_cmod_next nat_cmod_prev)
  have gr: "gs' ! r = (gs ! r)\<lparr>fourier_grid_raw := W2 r\<rparr>" if "r < P" for r
    using that by (simp add: gs'_def nth_ring_windows W2_def W1_def P_def)
  have lens: "int (length (fourier_grid_raw (gs ! r))) = G + S * nx + S * gR" if "r < P" for r
    using shape_offsets(5)[OF ring_shape[OF ring that[unfolded P_def]]]
    by (simp add: S_def G_def gL_def gR_def nx_def)
  have sl: "slab ((gs ! r)\<lparr>fourier_grid_raw := raw\<rparr>) s = take (nat S) (drop (nat (S * (gL + s))) raw)"
    if "r < P" for r raw s
    unfolding S_def gL_def by (rule slab_unfold[OF ring_shape[OF ring that[unfolded P_def]]])
  have sl0: "slab (gs ! r) s = take (nat S) (drop (nat (S * (gL + s))) (fourier_grid_raw (gs ! r)))"
    if "r < P" for r s
    using sl[OF that, of "fourier_grid_raw (gs ! r)" s] by simp
  have main: "(\<forall>j. 0 \<le> j \<and> j < min gR nx \<longrightarrow> slab (gs' ! r) (nx + j) = slab (gs ! ((r + 1) mod P)) j)
       \<and> (\<forall>j. 0 \<le> j \<and> j < min gL nx \<longrightarrow>
             slab (gs' ! r) (- 1 - j) = slab (gs ! ((r + P - 1) mod P)) (nx - 1 - j))
       \<and> (\<forall>s. 0 \<le> s \<and> s < nx \<longrightarrow> slab (gs' ! r) s = slab (gs ! r) s)"
    if r: "r < P" for r
  proof -
    note ex = exchanged_slabs[OF S1 g0(1,2,3) G_def R_def n1(2,3,4) n2(2,3,4)
        lens[OF r] lens[OF nb(4)[of r]] lens[OF nb(3)[of r]] W2_def[unfolded W1_def, THEN fun_cong, of r]]
    show ?thesis
      unfolding gr[OF r] sl[OF r] nb(1,2)[symmetric] sl0[OF nb(3)] sl0[OF nb(4)] sl0[OF r]
        n1(1)[symmetric] n2(1)[symmetric]
      using ex by blast
  qed
  have one: "communicate_boundaries (hd gs) = Inr (hd gs')" if len1: "length gs = 1"
  proof -
    have "\<exists>g. gs = [g]" using len1 by (cases gs) auto
    then obtain g where gs: "gs = [g]" by blast
    have z: "nxt 0 = 0" "prv 0 = 0" using len1 by (simp_all add: nb P_def)
    have "hd gs' = gs' ! 0" using lg len1 by (cases gs') auto
    also have "\<dots> = g\<lparr>fourier_grid_raw := W2 0\<rparr>" using gr[of 0] P by (simp add: gs)
    finally have h: "hd gs' = g\<lparr>fourier_grid_raw := W2 0\<rparr>" .
    have wf: "grid_wf g" using wf0 by (simp add: gs)
    have sm: "NmeshTotRealSlice g * 8 < 2147483648" using small by (simp add: gs)
    show ?thesis
      unfolding h
      using communicate_boundaries_closed[OF wf sm refl refl refl]
      by (simp add: gs W2_def W1_def z S_def G_def R_def gL_def nx_def n1_def n2_def)
  qed
  show ?thesis
    using closed lg main one
    unfolding P_def gL_def gR_def nx_def by blast
qed

theorem halo_exchange_ring_witness:
  "ring_wf
     [(FFTWGrid_fields 2 6 1 2 2 0 8)\<lparr>fourier_grid_raw := [3, 10, 17, 24, 31, 38, 45, 52,
       59, 66, 73, 80, 87, 94, 101, 108, 115, 122, 129, 136, 143, 150, 157, 164, 171, 178, 185,
       192, 199, 206, 213, 220, 227, 234, 241, 248, 255, 262, 269, 276]\<rparr>,
      (FFTWGrid_fields 2 6 1 2 2 2 8)\<lparr>fourier_grid_raw := [1003, 1010, 1017, 1024, 1031,
        1038, 1045, 1052, 1059, 1066, 1073, 1080, 1087, 1094, 1101, 1108, 1115, 1122, 1129, 1136,
        1143, 1150, 1157, 1164, 1171, 1178, 1185, 1192, 1199, 1206, 1213, 1220, 1227, 1234, 1241,
        1248, 1255, 1262, 1269, 1276]\<rparr>,
      (FFTWGrid_fields 2 6 1 2 2 4 8)\<lparr>fourier_grid_raw := [2003, 2010, 2017, 2024, 2031,
        2038, 2045, 2052, 2059, 2066, 2073, 2080, 2087, 2094, 2101, 2108, 2115, 2122, 2129, 2136,
        2143, 2150, 2157, 2164, 2171, 2178, 2185, 2192, 2199, 2206, 2213, 2220, 2227, 2234, 2241,
        2248, 2255, 2262, 2269, 2276]\<rparr>]
   \<and> (\<exists>gs'. communicate_boundaries_mpi
          [(FFTWGrid_fields 2 6 1 2 2 0 8)\<lparr>fourier_grid_raw := [3, 10, 17, 24, 31, 38, 45,
            52, 59, 66, 73, 80, 87, 94, 101, 108, 115, 122, 129, 136, 143, 150, 157, 164, 171,
            178, 185, 192, 199, 206, 213, 220, 227, 234, 241, 248, 255, 262, 269, 276]\<rparr>,
      (FFTWGrid_fields 2 6 1 2 2 2 8)\<lparr>fourier_grid_raw := [1003, 1010, 1017, 1024, 1031,
        1038, 1045, 1052, 1059, 1066, 1073, 1080, 1087, 1094, 1101, 1108, 1115, 1122, 1129, 1136,
        1143, 1150, 1157, 1164, 1171, 1178, 1185, 1192, 1199, 1206, 1213, 1220, 1227, 1234, 1241,
        1248, 1255, 1262, 1269, 1276]\<rparr>,
      (FFTWGrid_fields 2 6 1 2 2 4 8)\<lparr>fourier_grid_raw := [2003, 2010, 2017, 2024, 2031,
        2038, 2045, 2052, 2059, 2066, 2073, 2080, 2087, 2094, 2101, 2108, 2115, 2122, 2129, 2136,
        2143, 2150, 2157, 2164, 2171, 2178, 2185, 2192, 2199, 2206, 2213, 2220, 2227, 2234, 2241,
        2248, 2255, 2262, 2269, 2276]\<rparr>] = Inr gs'
        \<and> slab (gs' ! 0) 2 = [1059, 1066, 1073, 1080, 1087, 1094, 1101, 1108]
        \<and> slab (gs' ! 0) 3 = [1115, 1122, 1129, 1136, 1143, 1150, 1157, 1164]
        \<and> slab (gs' ! 0) (- 1) = [2115, 2122, 2129, 2136, 2143, 2150, 2157, 2164]
        \<and> slab (gs' ! 0) 0 = [59, 66, 73, 80, 87, 94, 101, 108]
        \<and> slab (gs' ! 0) 1 = [115, 122, 129, 136, 143, 150, 157, 164]
        \<and> slab (gs' ! 2) 2 = [59, 66, 73, 80, 87, 94, 101, 108]
        \<and> slab (gs' ! 1) (- 1) = [115, 122, 129, 136, 143, 150, 157, 164])"
proof -
  let ?A = "(FFTWGrid_fields 2 6 1 2 2 0 8)\<lparr>fourier_grid_raw := [3, 10, 17, 24, 31, 38, 45,
    52, 59, 66, 73, 80, 87, 94, 101, 108, 115, 122, 129, 136, 143, 150, 157, 164, 171, 178, 185,
    192, 199, 206, 213, 220, 227, 234, 241, 248, 255, 262, 269, 276]\<rparr>"
  let ?B = "(FFTWGrid_fields 2 6 1 2 2 2 8)\<lparr>fourier_grid_raw := [1003, 1010, 1017, 1024,
    1031, 1038, 1045, 1052, 1059, 1066, 1073, 1080, 1087, 1094, 1101, 1108, 1115, 1122, 1129,
    1136, 1143, 1150, 1157, 1164, 1171, 1178, 1185, 1192, 1199, 1206, 1213, 1220, 1227, 1234,
    1241, 1248, 1255, 1262, 1269, 1276]\<rparr>"
  let ?C = "(FFTWGrid_fields 2 6 1 2 2 4 8)\<lparr>fourier_grid_raw := [2003, 2010, 2017, 2024,
    2031, 2038, 2045, 2052, 2059, 2066, 2073, 2080, 2087, 2094, 2101, 2108, 2115, 2122, 2129,
    2136, 2143, 2150, 2157, 2164, 2171, 2178, 2185, 2192, 2199, 2206, 2213, 2220, 2227, 2234,
    2241, 2248, 2255, 2262, 2269, 2276]\<rparr>"
  have ring: "ring_wf [?A, ?B, ?C]" by code_simp
  have small: "NmeshTotRealSlice (hd [?A, ?B, ?C]) * 8 < 2147483648" by code_simp
  have f: "n_extra_x_slices_right (hd [?A, ?B, ?C]) = 2" "n_extra_x_slices_left (hd [?A, ?B, ?C])
    = 1"
    "Local_nx (hd [?A, ?B, ?C]) = 2"
    by (simp_all add: FFTWGrid_fields_def Let_def)
  have sA: "slab ?A 0 = [59, 66, 73, 80, 87, 94, 101, 108]" "slab ?A 1 = [115, 122, 129, 136, 143,
    150, 157, 164]" by code_simp+
  have sB: "slab ?B 0 = [1059, 1066, 1073, 1080, 1087, 1094, 1101, 1108]" "slab ?B 1 = [1115,
    1122, 1129, 1136, 1143, 1150, 1157, 1164]" by code_simp+
  have sC: "slab ?C 1 = [2115, 2122, 2129, 2136, 2143, 2150, 2157, 2164]" by code_simp
  obtain gs' where gs': "communicate_boundaries_mpi [?A, ?B, ?C] = Inr gs'"
    and r: "\<forall>r<length [?A, ?B, ?C].
         (\<forall>j. 0 \<le> j \<and> j < min (n_extra_x_slices_right (hd [?A, ?B, ?C]))
           (Local_nx (hd [?A, ?B, ?C])) \<longrightarrow>
             slab (gs' ! r) (Local_nx (hd [?A, ?B, ?C]) + j)
               = slab ([?A, ?B, ?C] ! ((r + 1) mod length [?A, ?B, ?C])) j)
       \<and> (\<forall>j. 0 \<le> j \<and> j < min (n_extra_x_slices_left (hd [?A, ?B, ?C]))
         (Local_nx (hd [?A, ?B, ?C])) \<longrightarrow>
             slab (gs' ! r) (- 1 - j)
               = slab ([?A, ?B, ?C] ! ((r + length [?A, ?B, ?C] - 1) mod length [?A, ?B, ?C]))
                   (Local_nx (hd [?A, ?B, ?C]) - 1 - j))
       \<and> (\<forall>s. 0 \<le> s \<and> s < Local_nx (hd [?A, ?B, ?C]) \<longrightarrow> slab
         (gs' ! r) s = slab ([?A, ?B, ?C] ! r) s)"
    using halo_exchange_ring[OF ring small] by blast
  have r0: "(\<forall>j. 0 \<le> j \<and> j < 2 \<longrightarrow> slab (gs' ! 0) (2 + j) = slab ?B
    j)
       \<and> (\<forall>j. 0 \<le> j \<and> j < 1 \<longrightarrow> slab (gs' ! 0) (- 1 - j) =
         slab ?C (2 - 1 - j))
       \<and> (\<forall>s. 0 \<le> s \<and> s < 2 \<longrightarrow> slab (gs' ! 0) s = slab ?A s)"
    using r[rule_format, of 0] unfolding f by simp
  have r1: "\<forall>j. 0 \<le> j \<and> j < 1 \<longrightarrow> slab (gs' ! 1) (- 1 - j) = slab
    ?A (2 - 1 - j)"
    using r[rule_format, of 1] unfolding f by simp
  have r2: "\<forall>j. 0 \<le> j \<and> j < 2 \<longrightarrow> slab (gs' ! 2) (2 + j) = slab ?A j"
    using r[rule_format, of 2] unfolding f by simp
  have "slab (gs' ! 0) 2 = slab ?B 0" "slab (gs' ! 0) 3 = slab ?B 1"
    "slab (gs' ! 0) (- 1) = slab ?C 1" "slab (gs' ! 0) 0 = slab ?A 0" "slab (gs' ! 0) 1 = slab ?A 1"
    "slab (gs' ! 2) 2 = slab ?A 0" "slab (gs' ! 1) (- 1) = slab ?A 1"
    using r0 r1 r2 by (auto dest: spec[of _ 0] spec[of _ 1])
  then show ?thesis using ring gs' sA sB sC by auto
qed

text \<open>
  The claim as first stated has the two widths exchanged.  With \<open>gL = 1\<close>,
  \<open>gR = 2\<close> and two owned slabs of four reals (one process), the right ghost
  region receives \<open>min(gR, local_nx) = 2\<close> slabs, the two leftmost owned ones,
  and not \<open>min(gL, local_nx) = 1\<close>; the left ghost region receives the one
  rightmost owned slab, and not two.  And it does not hold for every grid: on
  the mesh of \<open>16384\<^sup>3\<close> cells with one ghost slab on the right a slab has
  \<open>2147745792\<close> bytes, the \<^verbatim>\<open>int bytes_slice\<close> is negative and nothing defined is
  copied.
\<close>

theorem halo_exchange_widths_counterexample:
  "communicate_boundaries (FFTWGrid_new 3 16384 0 1) = Inl UndefinedBehaviour
   \<and> communicate_boundaries
     ((FFTWGrid_new 2 2 1 2)\<lparr>fourier_grid_raw :=
        [1, 2, 3, 4, 5, 6, 7, 8, 9, 10, 11, 12, 13, 14, 15, 16, 17, 18, 19, 20]\<rparr>)
   = Inr ((FFTWGrid_new 2 2 1 2)\<lparr>fourier_grid_raw :=
        [9, 10, 11, 12, 5, 6, 7, 8, 9, 10, 11, 12, 5, 6, 7, 8, 9, 10, 11, 12]\<rparr>)
   \<and> min (n_extra_x_slices_right (FFTWGrid_new 2 2 1 2)) (Local_nx (FFTWGrid_new 2 2 1 2)) = 2
   \<and> min (n_extra_x_slices_left (FFTWGrid_new 2 2 1 2)) (Local_nx (FFTWGrid_new 2 2 1 2)) = 1"
proof -
  have widths: "communicate_boundaries
     ((FFTWGrid_new 2 2 1 2)\<lparr>fourier_grid_raw :=
        [1, 2, 3, 4, 5, 6, 7, 8, 9, 10, 11, 12, 13, 14, 15, 16, 17, 18, 19, 20]\<rparr>)
   = Inr ((FFTWGrid_new 2 2 1 2)\<lparr>fourier_grid_raw :=
        [9, 10, 11, 12, 5, 6, 7, 8, 9, 10, 11, 12, 5, 6, 7, 8, 9, 10, 11, 12]\<rparr>)
   \<and> min (n_extra_x_slices_right (FFTWGrid_new 2 2 1 2)) (Local_nx (FFTWGrid_new 2 2 1 2)) = 2
   \<and> min (n_extra_x_slices_left (FFTWGrid_new 2 2 1 2)) (Local_nx (FFTWGrid_new 2 2 1 2)) = 1"
    by code_simp
  have bytes: "communicate_boundaries (FFTWGrid_new 3 16384 0 1) = Inl UndefinedBehaviour"
    by (rule halo_exchange_overflow)
       (simp_all add: n_to_recv_right_def FFTWGrid_new_shape cdiv_def)
  show ?thesis by (rule conjI[OF bytes widths])
qed


section \<open>The weights of the orders 2 to 5\<close>

text \<open>
  On every axis the kernel values at the \<open>ORDER\<close> stencil offsets add up to 1,
  for every offset of the particle in its cell; the weights of the
  \<open>ORDER\<^sup>N\<close> cells of the stencil are the products over the axes.
\<close>

lemma sum_upto5: "(\<Sum>k<5::nat. F k) = F 0 + F 1 + F 2 + F 3 + (F 4 :: real)"
  by (simp add: eval_nat_numeral)

lemma kernel2_unity:
  assumes "0 \<le> x" "x < 1"
  shows "(\<Sum>k<2::nat. kernel 2 \<bar>- x + real_of_int (xstart_of 2 x + int k)\<bar>) = 1"
  using assms
  by (simp add: kernel_def xstart_of_def cdiv_def cmod_def eval_nat_numeral abs_if)

lemma kernel3_unity:
  assumes "0 \<le> x" "x < 1"
  shows "(\<Sum>k<3::nat. kernel 3 \<bar>- x + real_of_int (xstart_of 3 x + int k)\<bar>) = 1"
  using assms
  by (auto simp: kernel_def xstart_of_def cdiv_def cmod_def eval_nat_numeral abs_if field_simps)

lemma kernel4_unity:
  assumes "0 \<le> x" "x < 1"
  shows "(\<Sum>k<4::nat. kernel 4 \<bar>- x + real_of_int (xstart_of 4 x + int k)\<bar>) = 1"
  using assms
  by (auto simp: kernel_def xstart_of_def cdiv_def cmod_def eval_nat_numeral abs_if field_simps)

lemma kernel5_unity:
  assumes "0 \<le> x" "x < 1"
  shows "(\<Sum>k<5::nat. kernel 5 \<bar>- x + real_of_int (xstart_of 5 x + int k)\<bar>) = 1"
proof -
  consider "x < 1/2" | "x = 1/2" | "1/2 < x" by linarith
  then show ?thesis
  proof cases
    case 1
    then show ?thesis using assms
      by (auto simp: kernel_def xstart_of_def cdiv_def cmod_def eval_nat_numeral abs_if field_simps)
  next
    case 2
    have xs: "xstart_of 5 (1/2) = - 2" by (simp add: xstart_of_def cdiv_def cmod_def)
    have k: "kernel 5 (5/2) = 0" "kernel 5 (3/2) = 1/24" "kernel 5 (1/2) = 11/24"
      by (simp_all add: kernel_def)
    have a: "\<bar>- (1/2) + real_of_int (- 2 + int 0)\<bar> = 5/2"
      "\<bar>- (1/2) + real_of_int (- 2 + int 1)\<bar> = 3/2"
      "\<bar>- (1/2) + real_of_int (- 2 + int 2)\<bar> = 1/2"
      "\<bar>- (1/2) + real_of_int (- 2 + int 3)\<bar> = 1/2"
      "\<bar>- (1/2) + real_of_int (- 2 + int 4)\<bar> = 3/2"
      by simp_all
    show ?thesis
      unfolding 2 xs sum_upto5 by (simp only: a k)
  next
    case 3
    then show ?thesis using assms
      by (auto simp: kernel_def xstart_of_def cdiv_def cmod_def eval_nat_numeral abs_if field_simps)
  qed
qed

lemma kernel_unity:
  assumes "2 \<le> p" "p \<le> 5" "0 \<le> x" "x < 1"
  shows "(\<Sum>k<nat p. kernel p \<bar>- x + real_of_int (xstart_of p x + int k)\<bar>) = 1"
proof -
  consider "p = 2" | "p = 3" | "p = 4" | "p = 5" using assms(1,2) by linarith
  then show ?thesis
    using kernel2_unity[OF assms(3,4)] kernel3_unity[OF assms(3,4)]
      kernel4_unity[OF assms(3,4)] kernel5_unity[OF assms(3,4)]
    by cases simp_all
qed



lemma digit_of_sum:
  fixes p :: nat
  assumes "d < N" "r < p ^ N"
  shows "((q * p ^ N + r) div p ^ d) mod p = (r div p ^ d) mod p"
proof -
  obtain m where m: "N = d + Suc m"
    using assms(1) by (metis less_imp_Suc_add add_Suc_right)
  have p0: "p \<noteq> 0"
  proof
    assume "p = 0"
    then show False using assms(2) m by simp
  qed
  have e: "q * p ^ N + r = r + (q * p ^ m * p) * p ^ d"
    unfolding m power_add power_Suc by (simp only: mult_ac add.commute)
  have "(r + (q * p ^ m * p) * p ^ d) div p ^ d = q * p ^ m * p + r div p ^ d"
    by (rule div_mult_self1) (simp add: p0)
  then have "((q * p ^ N + r) div p ^ d) mod p = (q * p ^ m * p + r div p ^ d) mod p"
    by (simp only: e)
  also have "\<dots> = (r div p ^ d) mod p"
    by simp
  finally show ?thesis .
qed

lemma tensor_sum:
  fixes p :: nat and f :: "nat \<Rightarrow> nat \<Rightarrow> real"
  shows "(\<Sum>i<p ^ N. \<Prod>d<N. f d ((i div p ^ d) mod p)) = (\<Prod>d<N. \<Sum>k<p. f d k)"
proof (induction N)
  case 0
  show ?case by simp
next
  case (Suc N)
  have "(\<Sum>i<p ^ Suc N. \<Prod>d<Suc N. f d ((i div p ^ d) mod p))
      = (\<Sum>i<p * p ^ N. \<Prod>d<Suc N. f d ((i div p ^ d) mod p))" by simp
  also have "\<dots> = (\<Sum>q<p. \<Sum>i = q * p ^ N..<q * p ^ N + p ^ N. \<Prod>d<Suc N. f d ((i div p ^ d) mod p))"
    by (rule sum.nat_group[symmetric])
  also have "\<dots> = (\<Sum>q<p. \<Sum>r<p ^ N. \<Prod>d<Suc N. f d (((q * p ^ N + r) div p ^ d) mod p))"
  proof (rule sum.cong[OF refl])
    fix q
    have "(\<Sum>i = q * p ^ N..<q * p ^ N + p ^ N. \<Prod>d<Suc N. f d ((i div p ^ d) mod p))
        = (\<Sum>i = 0 + q * p ^ N..<p ^ N + q * p ^ N. \<Prod>d<Suc N. f d ((i div p ^ d) mod p))"
      by (simp add: add.commute)
    also have "\<dots> = (\<Sum>r = 0..<p ^ N. \<Prod>d<Suc N. f d (((r + q * p ^ N) div p ^ d) mod p))"
      by (rule sum.shift_bounds_nat_ivl)
    finally show "(\<Sum>i = q * p ^ N..<q * p ^ N + p ^ N. \<Prod>d<Suc N. f d ((i div p ^ d) mod p))
        = (\<Sum>r<p ^ N. \<Prod>d<Suc N. f d (((q * p ^ N + r) div p ^ d) mod p))"
      by (simp only: add.commute[of _ "q * p ^ N"] lessThan_atLeast0)
  qed
  also have "\<dots> = (\<Sum>q<p. \<Sum>r<p ^ N. f N q * (\<Prod>d<N. f d ((r div p ^ d) mod p)))"
  proof (intro sum.cong refl)
    fix q r assume "q \<in> {..<p}" "r \<in> {..<p ^ N}"
    then have q: "q < p" and r: "r < p ^ N" by auto
    have top: "((q * p ^ N + r) div p ^ N) mod p = q" using q r by simp
    have low: "(\<Prod>d<N. f d (((q * p ^ N + r) div p ^ d) mod p)) = (\<Prod>d<N. f d ((r div p ^ d) mod p))"
      by (rule prod.cong[OF refl]) (simp add: digit_of_sum[OF _ r])
    show "(\<Prod>d<Suc N. f d (((q * p ^ N + r) div p ^ d) mod p))
        = f N q * (\<Prod>d<N. f d ((r div p ^ d) mod p))"
      by (simp add: top low mult.commute)
  qed
  also have "\<dots> = (\<Sum>q<p. f N q) * (\<Sum>r<p ^ N. \<Prod>d<N. f d ((r div p ^ d) mod p))"
    by (simp only: sum_product)
  also have "\<dots> = (\<Prod>d<Suc N. \<Sum>k<p. f d k)"
    by (simp add: Suc.IH mult.commute)
  finally show ?case .
qed


lemma fold_mult_prod:
  "fold (\<lambda>d w. w * f d) [0..<N] a = a * (\<Prod>d<N. (f d :: real))"
  by (induction N) (simp_all add: mult_ac)

lemma fold_add_sum:
  "fold (\<lambda>i sw. sw + f i) (map int [0..<n]) a = a + (\<Sum>i<n. (f (int i) :: real))"
  by (induction n) (simp_all add: add_ac)

lemma stencil_digit:
  assumes "2 \<le> p"
  shows "cmod (cdiv (int i) (p ^ d)) p = int ((i div nat p ^ d) mod nat p)"
proof -
  define P where "P = nat p"
  have p: "p = int P" using assms by (simp add: P_def)
  have P0: "0 < P" using assms by (simp add: P_def)
  have pp: "0 < int P ^ d" using P0 by simp
  have "cdiv (int i) (int P ^ d) = int i div int P ^ d"
    by (rule cdiv_nonneg) (use P0 in simp_all)
  also have "\<dots> = int (i div P ^ d)" by (simp add: zdiv_int)
  finally have c: "cdiv (int i) (int P ^ d) = int (i div P ^ d)" .
  have "cmod (int (i div P ^ d)) (int P) = int (i div P ^ d) mod int P"
    by (rule cmod_nonneg) (use P0 in simp_all)
  then show ?thesis unfolding p c by (simp add: zmod_int)
qed

lemma stencil_weight_prod:
  assumes "2 \<le> p" "length x = N"
  shows "stencil_weight N p x (map (xstart_of p) x) (int i) =
         (\<Prod>d<N. kernel p \<bar>- (x ! d) + real_of_int (xstart_of p (x ! d) + int ((i div nat p ^ d) mod nat p))\<bar>)"
proof -
  have p1: "p \<noteq> 1" using assms(1) by simp
  show ?thesis
    unfolding stencil_weight_def fold_mult_prod go_left_right_or_stay_def
    using assms(2) by (simp add: p1 stencil_digit[OF assms(1)])
qed

lemma offset_in_cell_range:
  assumes "d < N_dim g" "0 \<le> ps ! d" "0 \<le> Nmesh g"
  shows "0 \<le> offset_in_cell g ps ! d \<and> offset_in_cell g ps ! d < 1"
proof -
  have "0 \<le> ps ! d * real_of_int (Nmesh g)" using assms(2,3) by simp
  then show ?thesis using assms(1)
    by (simp add: offset_in_cell_def int_of_double_def) linarith
qed

lemma sumweights_one:
  assumes p: "2 \<le> p" "p \<le> 5" and lim: "p ^ N_dim g < 2147483648" and M: "0 \<le> Nmesh g"
    and ps: "\<And>d. d < N_dim g \<Longrightarrow> 0 \<le> ps ! d"
  shows "(\<Sum>i<nat p ^ N_dim g.
            stencil_weight (N_dim g) p (offset_in_cell g ps)
              (map (xstart_of p) (offset_in_cell g ps)) (int i)) = 1"
proof -
  define x where "x = offset_in_cell g ps"
  have lx: "length x = N_dim g" by (simp add: x_def offset_in_cell_def)
  have xr: "\<And>d. d < N_dim g \<Longrightarrow> 0 \<le> x ! d \<and> x ! d < 1"
    unfolding x_def using offset_in_cell_range[OF _ ps M] by blast
  have "(\<Sum>i<nat p ^ N_dim g. stencil_weight (N_dim g) p x (map (xstart_of p) x) (int i))
      = (\<Sum>i<nat p ^ N_dim g. \<Prod>d<N_dim g.
           kernel p \<bar>- (x ! d) + real_of_int (xstart_of p (x ! d) + int ((i div nat p ^ d) mod nat p))\<bar>)"
    by (simp only: stencil_weight_prod[OF p(1) lx])
  also have "\<dots> = (\<Prod>d<N_dim g. \<Sum>k<nat p.
           kernel p \<bar>- (x ! d) + real_of_int (xstart_of p (x ! d) + int k)\<bar>)"
    by (rule tensor_sum)
  also have "\<dots> = (\<Prod>d<N_dim g. 1)"
  proof (rule prod.cong[OF refl])
    fix d assume "d \<in> {..<N_dim g}"
    then have "0 \<le> x ! d" "x ! d < 1" using xr by auto
    then show "(\<Sum>k<nat p. kernel p \<bar>- (x ! d) + real_of_int (xstart_of p (x ! d) + int k)\<bar>) = 1"
      by (rule kernel_unity[OF p])
  qed
  finally show ?thesis unfolding x_def by simp
qed

lemma sumweights_orders_2_to_5:
  assumes p: "2 \<le> p" "p \<le> 5" and lim: "p ^ N_dim g < 2147483648" and M: "0 \<le> Nmesh g"
    and ps: "\<And>d. d < N_dim g \<Longrightarrow> 0 \<le> ps ! d"
  shows "sumweights p g ps = 1"
proof -
  have w: "to_int32 (power_ll p (N_dim g)) = p ^ N_dim g"
    unfolding power_ll_def using p lim by (intro to_int32_id) (auto intro: order_trans[of _ 0])
  have n: "nat (p ^ N_dim g) = nat p ^ N_dim g" using p by (simp add: nat_power_eq)
  show ?thesis
    unfolding sumweights_def Let_def w n fold_add_sum
    using sumweights_one[OF p lim M ps] by simp
qed

section \<open>The deposit of one particle\<close>

lemma fold_err_upt_inv:
  assumes "P a s"
    and "\<And>i s. a \<le> i \<Longrightarrow> i < a + n \<Longrightarrow> P i s \<Longrightarrow> \<exists>s'. f (h i) s = Inr s' \<and> P (Suc i) s'"
  shows "\<exists>s'. fold_err f (map h [a..<a + n]) s = Inr s' \<and> P (a + n) s'"
  using assms(2)
proof (induction n)
  case 0
  then show ?case using assms(1) by simp
next
  case (Suc n)
  have "\<exists>s'. fold_err f (map h [a..<a + n]) s = Inr s' \<and> P (a + n) s'"
    by (rule Suc.IH) (use Suc.prems in auto)
  then obtain s1 where s1: "fold_err f (map h [a..<a + n]) s = Inr s1" "P (a + n) s1" by blast
  obtain s2 where s2: "f (h (a + n)) s1 = Inr s2" "P (Suc (a + n)) s2"
    using Suc.prems[of "a + n" s1] s1(2) by auto
  show ?case using s1 s2 by (simp add: fold_err_append bind_err_def)
qed

lemma lane_mass_update:
  assumes "q < length raw" "int q mod st < M"
  shows "(\<Sum>k<length raw. lane_mass st M (raw[q := raw ! q + v]) k)
       = (\<Sum>k<length raw. lane_mass st M raw k) + v"
proof -
  have "(\<Sum>k<length raw. lane_mass st M (raw[q := raw ! q + v]) k)
      = (\<Sum>k<length raw. lane_mass st M raw k + (if k = q then v else 0))"
    by (rule sum.cong[OF refl]) (use assms in \<open>simp add: lane_mass_def nth_list_update\<close>)
  also have "\<dots> = (\<Sum>k<length raw. lane_mass st M raw k) + (\<Sum>k<length raw. if k = q then v else 0)"
    by (rule sum.distrib)
  also have "(\<Sum>k<length raw. if k = q then v else 0) = v"
    using assms(1) by (simp add: sum.delta)
  finally show ?thesis .
qed

lemma foldl_slab:
  assumes "\<And>c. c \<in> set cs \<Longrightarrow> 0 \<le> c \<and> c < (M::int)"
  shows "a * M ^ length cs \<le> foldl (\<lambda>acc c. acc * M + c) a cs \<and>
         foldl (\<lambda>acc c. acc * M + c) a cs < (a + 1) * M ^ length cs"
proof -
  have "0 \<le> foldl (\<lambda>acc c. acc * M + c) 0 cs \<and>
        foldl (\<lambda>acc c. acc * M + c) 0 cs < 1 * M ^ length cs"
    by (rule foldl_bounds) (use assms in auto)
  moreover have "foldl (\<lambda>acc c. acc * M + c) (0 + a) cs =
                 foldl (\<lambda>acc c. acc * M + c) 0 cs + a * M ^ length cs"
    by (rule foldl_shift)
  ultimately show ?thesis by (simp add: algebra_simps)
qed

lemma idx_real_spec_slab:
  assumes wf: "grid_wf g" and len: "length coord = N_dim g"
    and ck: "\<And>k. 1 \<le> k \<Longrightarrow> k < N_dim g \<Longrightarrow> 0 \<le> coord ! k \<and> coord ! k < Nmesh g"
  shows "NmeshTotRealSlice g * (n_extra_x_slices_left g + coord ! 0)
           \<le> idx_real_spec (Nmesh g) (n_extra_x_slices_left g) coord"
    and "idx_real_spec (Nmesh g) (n_extra_x_slices_left g) coord
           < NmeshTotRealSlice g * (n_extra_x_slices_left g + coord ! 0 + 1)"
proof -
  define M where "M = Nmesh g"
  define gL where "gL = n_extra_x_slices_left g"
  define st where "st = 2 * (M div 2 + 1)"
  define F where "F = foldl (\<lambda>acc c. acc * M + c) (hd coord + gL) (butlast (tl coord))"
  define W where "W = M ^ (N_dim g - 2)"
  have N: "2 \<le> N_dim g" and M: "1 \<le> M" using wf by (auto simp: grid_wf_def M_def)
  have ne: "coord \<noteq> []" using len N by auto
  have hd: "hd coord = coord ! 0" using ne by (simp add: hd_conv_nth)
  have la: "last coord = coord ! (N_dim g - 1)" using ne len by (simp add: last_conv_nth)
  have lab: "0 \<le> last coord" "last coord < M" using ck[of "N_dim g - 1"] N la by (auto simp: M_def)
  have mid: "butlast (tl coord) = map ((!) coord) [1..<N_dim g - 1]"
    by (rule middle_coords[OF len N, symmetric])
  have midb: "\<And>c. c \<in> set (butlast (tl coord)) \<Longrightarrow> 0 \<le> c \<and> c < M"
    unfolding mid using ck by (auto simp: M_def)
  have l: "length (butlast (tl coord)) = N_dim g - 2" using len by simp
  have Fb: "(hd coord + gL) * W \<le> F" "F < (hd coord + gL + 1) * W"
    using foldl_slab[where cs = "butlast (tl coord)" and M = M and a = "hd coord + gL"] midb
    unfolding F_def W_def l by auto
  have stM: "M < st" unfolding st_def using M by presburger
  have idx: "idx_real_spec (Nmesh g) (n_extra_x_slices_left g) coord = F * st + last coord"
    by (simp add: idx_real_spec_def F_def st_def M_def gL_def)
  have S: "NmeshTotRealSlice g = W * st"
    using wf by (simp add: grid_wf_def W_def M_def st_def)
  have lo: "(hd coord + gL) * W * st \<le> F * st"
    using Fb(1) stM M by (intro mult_right_mono) auto
  have "(F + 1) * st \<le> (hd coord + gL + 1) * W * st"
    using Fb(2) stM M by (intro mult_right_mono) auto
  then have up: "F * st + st \<le> (hd coord + gL + 1) * W * st" by (simp add: algebra_simps)
  show "NmeshTotRealSlice g * (n_extra_x_slices_left g + coord ! 0)
           \<le> idx_real_spec (Nmesh g) (n_extra_x_slices_left g) coord"
    unfolding idx S unfolding gL_def[symmetric] hd[symmetric] using lo lab by (simp add: algebra_simps)
  show "idx_real_spec (Nmesh g) (n_extra_x_slices_left g) coord
           < NmeshTotRealSlice g * (n_extra_x_slices_left g + coord ! 0 + 1)"
    unfolding idx S unfolding gL_def[symmetric] hd[symmetric] using up lab stM by (simp add: algebra_simps)
qed

lemma add_real_valid:
  assumes wf: "grid_wf g" and len: "length coord = N_dim g"
    and c0: "- n_extra_x_slices_left g \<le> coord ! 0"
            "coord ! 0 < Local_nx g + n_extra_x_slices_right g"
    and ck: "\<And>k. 1 \<le> k \<Longrightarrow> k < N_dim g \<Longrightarrow> 0 \<le> coord ! k \<and> coord ! k < Nmesh g"
    and lim: "NmeshTotRealAlloc g < 2147483648"
  shows "\<exists>q. q < length (fourier_grid_raw g)
           \<and> int q mod (2 * (Nmesh g div 2 + 1)) < Nmesh g
           \<and> NmeshTotRealSlice g * (n_extra_x_slices_left g + coord ! 0) \<le> int q
           \<and> int q < NmeshTotRealSlice g * (n_extra_x_slices_left g + coord ! 0 + 1)
           \<and> add_real g coord v =
               Inr (g\<lparr>fourier_grid_raw := (fourier_grid_raw g)[q := fourier_grid_raw g ! q + v]\<rparr>)"
proof -
  define off where "off = idx_real_spec (Nmesh g) (n_extra_x_slices_left g) coord"
  have ro: "real_offset g coord = off" unfolding off_def by (rule real_offset_spec[OF wf len c0 ck lim])
  have b: "0 \<le> off" "off < int (length (fourier_grid_raw g))"
    "off mod (2 * (Nmesh g div 2 + 1)) = last coord" "last coord < Nmesh g"
    unfolding off_def using idx_real_spec_bounds[OF wf len c0 ck] by auto
  have s: "NmeshTotRealSlice g * (n_extra_x_slices_left g + coord ! 0) \<le> off"
    "off < NmeshTotRealSlice g * (n_extra_x_slices_left g + coord ! 0 + 1)"
    unfolding off_def using idx_real_spec_slab[OF wf len ck] by auto
  have a: "add_real g coord v =
      Inr (g\<lparr>fourier_grid_raw := (fourier_grid_raw g)[nat off := fourier_grid_raw g ! nat off + v]\<rparr>)"
    using ro b(1,2) len by (simp add: add_real_def load_real_def store_real_def bind_err_def)
  have i: "int (nat off) = off" using b(1) by simp
  have "nat off < length (fourier_grid_raw g)" using b(1,2) by linarith
  moreover have "int (nat off) mod (2 * (Nmesh g div 2 + 1)) < Nmesh g"
    by (simp only: i b(3) b(4))
  moreover have "NmeshTotRealSlice g * (n_extra_x_slices_left g + coord ! 0) \<le> int (nat off)"
    by (simp only: i s(1))
  moreover have "int (nat off) < NmeshTotRealSlice g * (n_extra_x_slices_left g + coord ! 0 + 1)"
    by (simp only: i s(2))
  ultimately show ?thesis using a by blast
qed

lemma xstart_range:
  assumes "2 \<le> p" "p \<le> 5" "0 \<le> c" "c < p"
  shows "- fst (get_extra_slices_needed_by_order p) \<le> xstart_of p y + c
       \<and> xstart_of p y + c \<le> snd (get_extra_slices_needed_by_order p)"
proof -
  consider "p = 2" | "p = 3" | "p = 4" | "p = 5" using assms(1,2) by linarith
  then show ?thesis using assms(3,4)
    by cases (simp_all add: extra_slices_values xstart_of_def cdiv_def cmod_def)
qed

lemma needed_slices_ordered:
  assumes "2 \<le> p" "p \<le> 5"
  shows "0 \<le> fst (get_extra_slices_needed_by_order p)
       \<and> fst (get_extra_slices_needed_by_order p) \<le> snd (get_extra_slices_needed_by_order p)"
proof -
  consider "p = 2" | "p = 3" | "p = 4" | "p = 5" using assms(1,2) by linarith
  then show ?thesis by cases (simp_all add: extra_slices_values)
qed

lemma go_range:
  assumes p: "2 \<le> p" "p \<le> 5" and d: "d < length x"
  shows "- fst (get_extra_slices_needed_by_order p)
           \<le> go_left_right_or_stay p (map (xstart_of p) x) d (int i)
       \<and> go_left_right_or_stay p (map (xstart_of p) x) d (int i)
           \<le> snd (get_extra_slices_needed_by_order p)"
proof -
  define c where "c = int ((i div nat p ^ d) mod nat p)"
  have m: "(i div nat p ^ d) mod nat p < nat p" using p(1) by simp
  have c0: "0 \<le> c" by (simp add: c_def)
  have c1: "c < p" unfolding c_def using m p(1) by linarith
  note c = c0 c1
  have "go_left_right_or_stay p (map (xstart_of p) x) d (int i) = xstart_of p (x ! d) + c"
    using p(1) d by (simp add: go_left_right_or_stay_def stencil_digit[OF p(1)] c_def)
  then show ?thesis using xstart_range[OF p c] by simp
qed

lemma cell_of_particle_range:
  assumes M: "1 \<le> Nmesh g" and x0: "Local_x_start g = 0" and d: "d < N_dim g"
    and ps: "0 \<le> ps ! d" "ps ! d < 1 \<or> (d \<noteq> 0 \<and> ps ! d = 1)"
  shows "0 \<le> cell_of_particle g ps ! d \<and> cell_of_particle g ps ! d < Nmesh g"
proof -
  define y where "y = ps ! d * real_of_int (Nmesh g)"
  have y0: "0 \<le> y" using ps(1) M by (simp add: y_def)
  have p1: "ps ! d \<le> 1" using ps(2) by auto
  have "ps ! d * real_of_int (Nmesh g) \<le> 1 * real_of_int (Nmesh g)"
    using p1 M by (intro mult_right_mono) simp_all
  then have y1: "y \<le> real_of_int (Nmesh g)" by (simp add: y_def)
  have y2: "y < real_of_int (Nmesh g)" if "ps ! d < 1"
  proof -
    have "ps ! d * real_of_int (Nmesh g) < 1 * real_of_int (Nmesh g)"
      using that M by (intro mult_strict_right_mono) simp_all
    then show ?thesis by (simp add: y_def)
  qed
  have f: "int_of_double (ps ! d * real_of_int (Nmesh g)) = \<lfloor>y\<rfloor>"
    using y0 by (simp add: int_of_double_def y_def)
  have f0: "0 \<le> \<lfloor>y\<rfloor>" using y0 by simp
  have f1: "\<lfloor>y\<rfloor> \<le> Nmesh g" using y1 by (simp add: floor_le_iff)
  have f2: "\<lfloor>y\<rfloor> < Nmesh g" if "d = 0"
    using y2 ps(2) that by (simp add: floor_less_iff)
  have "cell_of_particle g ps ! d =
        (let ix = int_of_double (ps ! d * real_of_int (Nmesh g))
         in if d = 0 then ix - Local_x_start g else if ix = Nmesh g then 0 else ix)"
    using d by (simp add: cell_of_particle_def)
  then have "cell_of_particle g ps ! d =
        (if d = 0 then \<lfloor>y\<rfloor> else if \<lfloor>y\<rfloor> = Nmesh g then 0 else \<lfloor>y\<rfloor>)"
    unfolding f x0 Let_def by simp
  then show ?thesis using f0 f1 f2 M by auto
qed

lemma stencil_icoord_valid:
  assumes p: "2 \<le> p" "p \<le> 5" and M: "snd (get_extra_slices_needed_by_order p) \<le> M"
    and lx: "length x = N" and N: "0 < N"
    and ix: "\<And>d. d < N \<Longrightarrow> 0 \<le> ix ! d \<and> ix ! d < M"
  shows "length (stencil_icoord N p M ix (map (xstart_of p) x) (int i)) = N"
    and "- fst (get_extra_slices_needed_by_order p)
           \<le> stencil_icoord N p M ix (map (xstart_of p) x) (int i) ! 0"
    and "stencil_icoord N p M ix (map (xstart_of p) x) (int i) ! 0
           < M + snd (get_extra_slices_needed_by_order p)"
    and "\<And>k. 1 \<le> k \<Longrightarrow> k < N \<Longrightarrow>
           0 \<le> stencil_icoord N p M ix (map (xstart_of p) x) (int i) ! k
         \<and> stencil_icoord N p M ix (map (xstart_of p) x) (int i) ! k < M"
proof -
  define nL where "nL = fst (get_extra_slices_needed_by_order p)"
  define nR where "nR = snd (get_extra_slices_needed_by_order p)"
  define go where "go = (\<lambda>d. go_left_right_or_stay p (map (xstart_of p) x) d (int i))"
  have ord: "0 \<le> nL" "nL \<le> nR" using needed_slices_ordered[OF p] by (simp_all add: nL_def nR_def)
  have gr: "- nL \<le> go d \<and> go d \<le> nR" if "d < N" for d
    using go_range[OF p, of d x i] that lx by (simp add: go_def nL_def nR_def)
  show "length (stencil_icoord N p M ix (map (xstart_of p) x) (int i)) = N"
    by (simp add: stencil_icoord_def)
  have c0: "stencil_icoord N p M ix (map (xstart_of p) x) (int i) ! 0 = ix ! 0 + go 0"
    using N by (simp add: stencil_icoord_def go_def)
  show "- fst (get_extra_slices_needed_by_order p)
           \<le> stencil_icoord N p M ix (map (xstart_of p) x) (int i) ! 0"
    unfolding c0 nL_def[symmetric] using gr[OF N] ix[OF N] by linarith
  show "stencil_icoord N p M ix (map (xstart_of p) x) (int i) ! 0
           < M + snd (get_extra_slices_needed_by_order p)"
    unfolding c0 nR_def[symmetric] using gr[OF N] ix[OF N] by linarith
  fix k assume k: "1 \<le> k" "k < N"
  define nb where "nb = ix ! k + go k"
  have nb: "- nL \<le> nb" "nb < M + nR" using gr[OF k(2)] ix[OF k(2)] by (auto simp: nb_def)
  have "stencil_icoord N p M ix (map (xstart_of p) x) (int i) ! k =
        (let c = (if M \<le> nb then nb - M else nb) in if c < 0 then c + M else c)"
    using k by (simp add: stencil_icoord_def go_def nb_def Let_def)
  then show "0 \<le> stencil_icoord N p M ix (map (xstart_of p) x) (int i) ! k
         \<and> stencil_icoord N p M ix (map (xstart_of p) x) (int i) ! k < M"
    using nb ord M unfolding nR_def[symmetric] by (auto simp: Let_def)
qed

lemma deposit_particle_mass:
  assumes wf: "grid_wf g" and single: "Local_nx g = Nmesh g" "Local_x_start g = 0"
    and p: "2 \<le> p" "p \<le> 5"
    and nL: "fst (get_extra_slices_needed_by_order p) \<le> n_extra_x_slices_left g"
    and nR: "snd (get_extra_slices_needed_by_order p) \<le> n_extra_x_slices_right g"
    and nM: "snd (get_extra_slices_needed_by_order p) \<le> Nmesh g"
    and lim: "p ^ N_dim g < 2147483648" and lima: "NmeshTotRealAlloc g < 2147483648"
    and lps: "N_dim g \<le> length ps"
    and ps: "\<And>d. d < N_dim g \<Longrightarrow> 0 \<le> ps ! d \<and> (ps ! d < 1 \<or> (d \<noteq> 0 \<and> ps ! d = 1))"
  shows "\<exists>raw'. deposit_particle p nf ps g = Inr (g\<lparr>fourier_grid_raw := raw'\<rparr>)
           \<and> length raw' = length (fourier_grid_raw g)
           \<and> (\<Sum>k<length (fourier_grid_raw g). lane_mass (2 * (Nmesh g div 2 + 1)) (Nmesh g) raw' k)
             = (\<Sum>k<length (fourier_grid_raw g).
                  lane_mass (2 * (Nmesh g div 2 + 1)) (Nmesh g) (fourier_grid_raw g) k) + nf
           \<and> (\<forall>k. int k < NmeshTotRealSlice g
                           * (n_extra_x_slices_left g - fst (get_extra_slices_needed_by_order p))
                  \<or> NmeshTotRealSlice g
                       * (n_extra_x_slices_left g + Nmesh g + snd (get_extra_slices_needed_by_order p))
                     \<le> int k
                \<longrightarrow> raw' ! k = fourier_grid_raw g ! k)"
proof -
  define N where "N = N_dim g"
  define M where "M = Nmesh g"
  define gL where "gL = n_extra_x_slices_left g"
  define S where "S = NmeshTotRealSlice g"
  define st where "st = 2 * (M div 2 + 1)"
  define needL where "needL = fst (get_extra_slices_needed_by_order p)"
  define needR where "needR = snd (get_extra_slices_needed_by_order p)"
  define raw where "raw = fourier_grid_raw g"
  define x where "x = offset_in_cell g ps"
  define ix where "ix = cell_of_particle g ps"
  define xstart where "xstart = map (xstart_of p) x"
  define w where "w = (\<lambda>j. stencil_weight N p x xstart (int j))"
  define Tot where "Tot = (\<lambda>r. \<Sum>k<length raw. lane_mass st M r k)"
  define far where "far = (\<lambda>k. int k < S * (gL - needL) \<or> S * (gL + M + needR) \<le> int k)"
  define F where "F = (\<lambda>i d. add_real d (stencil_icoord N p M ix xstart i)
                                 (stencil_weight N p x xstart i * nf * 1))"
  define Inv where "Inv = (\<lambda>i d. \<exists>r. d = g\<lparr>fourier_grid_raw := r\<rparr> \<and> length r = length raw
                         \<and> Tot r = Tot raw + nf * (\<Sum>j<i. w j)
                         \<and> (\<forall>k. far k \<longrightarrow> r ! k = raw ! k))"
  have N2: "2 \<le> N" and M1: "1 \<le> M" using wf by (auto simp: grid_wf_def N_def M_def)
  have S0: "0 \<le> S" using wf_slice_pos[OF wf] by (simp add: S_def)
  have lx: "length x = N" by (simp add: x_def offset_in_cell_def N_def)
  have ixr: "\<And>d. d < N \<Longrightarrow> 0 \<le> ix ! d \<and> ix ! d < M"
    unfolding ix_def M_def N_def
    using cell_of_particle_range[OF _ single(2), of _ ps] M1 ps by (simp add: M_def)
  have N0: "0 < N" using N2 by simp
  note valid = stencil_icoord_valid[OF p nM[folded M_def] lx N0 ixr, folded xstart_def needL_def needR_def]
  have wd: "to_int32 (power_ll p (N_dim g)) = p ^ N_dim g"
    unfolding power_ll_def using p lim by (intro to_int32_id) (auto intro: order_trans[of _ 0])
  have nn: "nat (p ^ N_dim g) = nat p ^ N_dim g" using p by (simp add: nat_power_eq)
  have dp: "deposit_particle p nf ps g = fold_err F (map int [0..<0 + nat p ^ N]) g"
    using lps unfolding deposit_particle_def Let_def F_def x_def ix_def xstart_def N_def M_def
    by (simp add: wd nn)
  have step: "\<exists>s'. F (int i) s = Inr s' \<and> Inv (Suc i) s'" if inv: "Inv i s" for i s
  proof -
    obtain r where r: "s = g\<lparr>fourier_grid_raw := r\<rparr>" "length r = length raw"
        "Tot r = Tot raw + nf * (\<Sum>j<i. w j)" "\<forall>k. far k \<longrightarrow> r ! k = raw ! k"
      using inv unfolding Inv_def by blast
    define coord where "coord = stencil_icoord N p M ix xstart (int i)"
    define v where "v = stencil_weight N p x xstart (int i) * nf * 1"
    have wfs: "grid_wf s" unfolding r(1) by (rule grid_wf_update_raw[OF wf]) (simp add: r(2) raw_def)
    have len: "length coord = N_dim s" using valid(1)[of i] by (simp add: coord_def r(1) N_def)
    have c0a: "- n_extra_x_slices_left s \<le> coord ! 0"
      using valid(2)[of i] nL by (simp add: coord_def r(1) needL_def)
    have c0b: "coord ! 0 < Local_nx s + n_extra_x_slices_right s"
      using valid(3)[of i] nR single(1) by (simp add: coord_def r(1) needR_def M_def)
    have ck: "\<And>k. 1 \<le> k \<Longrightarrow> k < N_dim s \<Longrightarrow> 0 \<le> coord ! k \<and> coord ! k < Nmesh s"
      using valid(4)[of _ i] by (simp add: coord_def r(1) N_def M_def)
    have las: "NmeshTotRealAlloc s < 2147483648" using lima by (simp add: r(1))
    obtain q where q: "q < length r" "int q mod st < M"
        "S * (gL + coord ! 0) \<le> int q" "int q < S * (gL + coord ! 0 + 1)"
        "add_real s coord v = Inr (s\<lparr>fourier_grid_raw := r[q := r ! q + v]\<rparr>)"
      using add_real_valid[OF wfs len c0a c0b ck las, of v]
      by (auto simp: r(1) st_def M_def S_def gL_def)
    have lo: "S * (gL - needL) \<le> S * (gL + coord ! 0)"
      using valid(2)[of i] S0 by (intro mult_left_mono) (simp_all add: coord_def)
    have hi: "S * (gL + coord ! 0 + 1) \<le> S * (gL + M + needR)"
      using valid(3)[of i] S0 by (intro mult_left_mono) (simp_all add: coord_def)
    have nfar: "\<not> far q" unfolding far_def using lo hi q(3,4) by linarith
    have t: "Tot (r[q := r ! q + v]) = Tot r + v"
      unfolding Tot_def r(2)[symmetric] by (rule lane_mass_update[OF q(1,2)])
    have "Tot (r[q := r ! q + v]) = Tot raw + nf * (\<Sum>j<Suc i. w j)"
      unfolding t r(3) by (simp add: v_def w_def algebra_simps)
    moreover have "\<forall>k. far k \<longrightarrow> r[q := r ! q + v] ! k = raw ! k"
      using r(4) nfar by (metis nth_list_update_neq)
    moreover have "F (int i) s = Inr (g\<lparr>fourier_grid_raw := r[q := r ! q + v]\<rparr>)"
      using q(5) by (simp add: F_def coord_def v_def r(1))
    ultimately show ?thesis unfolding Inv_def using r(2) by auto
  qed
  have "Inv 0 g" unfolding Inv_def by (intro exI[of _ raw]) (simp add: raw_def)
  then have "\<exists>s'. fold_err F (map int [0..<0 + nat p ^ N]) g = Inr s' \<and> Inv (0 + nat p ^ N) s'"
    by (rule fold_err_upt_inv) (use step in blast)
  then obtain r where r: "deposit_particle p nf ps g = Inr (g\<lparr>fourier_grid_raw := r\<rparr>)"
      "length r = length raw" "Tot r = Tot raw + nf * (\<Sum>j<nat p ^ N. w j)"
      "\<forall>k. far k \<longrightarrow> r ! k = raw ! k"
    unfolding dp[symmetric] Inv_def by auto
  have ps0: "\<And>d. d < N_dim g \<Longrightarrow> 0 \<le> ps ! d" using ps by blast
  have M0: "0 \<le> Nmesh g" using M1 by (simp add: M_def)
  have "(\<Sum>j<nat p ^ N. w j) = 1"
    unfolding w_def xstart_def x_def N_def by (rule sumweights_one[OF p lim M0 ps0])
  then have "Tot r = Tot raw + nf" using r(3) by simp
  then show ?thesis using r(1,2,4)
    unfolding Tot_def far_def raw_def st_def M_def S_def gL_def needL_def needR_def
    by (intro exI[of _ r]) simp
qed

lemma fill_real_grid_wf:
  assumes "grid_wf g"
  shows "fill_real_grid g v = Inr (g\<lparr>fourier_grid_raw := replicate (length (fourier_grid_raw g)) v\<rparr>)"
proof -
  have a: "NmeshTotRealAlloc g = int (length (fourier_grid_raw g))"
    using assms by (simp add: grid_wf_def)
  show ?thesis unfolding fill_real_grid_def a by simp
qed

lemma lane_mass_filled:
  "(\<Sum>k<n. lane_mass st M (replicate n (- 1)) k) = 0"
  by (rule sum.neutral) (simp add: lane_mass_def)

lemma scatter_loop_mass:
  assumes wf: "grid_wf g" and single: "Local_nx g = Nmesh g" "Local_x_start g = 0"
    and p: "2 \<le> p" "p \<le> 5"
    and nL: "fst (get_extra_slices_needed_by_order p) \<le> n_extra_x_slices_left g"
    and nR: "snd (get_extra_slices_needed_by_order p) \<le> n_extra_x_slices_right g"
    and nM: "snd (get_extra_slices_needed_by_order p) \<le> Nmesh g"
    and lim: "p ^ N_dim g < 2147483648" and lima: "NmeshTotRealAlloc g < 2147483648"
    and np: "NumPart \<le> length part"
    and inside: "\<And>i d. i < NumPart \<Longrightarrow> N_dim g \<le> length (get_pos (part ! i))
                   \<and> (d < N_dim g \<longrightarrow> 0 \<le> get_pos (part ! i) ! d
                        \<and> (get_pos (part ! i) ! d < 1 \<or> (d \<noteq> 0 \<and> get_pos (part ! i) ! d = 1)))"
  shows "\<exists>raw'. fold_err (\<lambda>i d. if i < length part
                                   then deposit_particle p nf (get_pos (part ! i)) d
                                   else Inl UndefinedBehaviour) [0..<NumPart] g
                  = Inr (g\<lparr>fourier_grid_raw := raw'\<rparr>)
           \<and> length raw' = length (fourier_grid_raw g)
           \<and> (\<Sum>k<length (fourier_grid_raw g). lane_mass (2 * (Nmesh g div 2 + 1)) (Nmesh g) raw' k)
             = (\<Sum>k<length (fourier_grid_raw g).
                  lane_mass (2 * (Nmesh g div 2 + 1)) (Nmesh g) (fourier_grid_raw g) k)
               + nf * real NumPart
           \<and> (\<forall>k. int k < NmeshTotRealSlice g
                           * (n_extra_x_slices_left g - fst (get_extra_slices_needed_by_order p))
                  \<or> NmeshTotRealSlice g
                       * (n_extra_x_slices_left g + Nmesh g + snd (get_extra_slices_needed_by_order p))
                     \<le> int k
                \<longrightarrow> raw' ! k = fourier_grid_raw g ! k)"
proof -
  define raw where "raw = fourier_grid_raw g"
  define Tot where "Tot = (\<lambda>r. \<Sum>k<length raw. lane_mass (2 * (Nmesh g div 2 + 1)) (Nmesh g) r k)"
  define far where "far = (\<lambda>k. int k < NmeshTotRealSlice g
                           * (n_extra_x_slices_left g - fst (get_extra_slices_needed_by_order p))
                  \<or> NmeshTotRealSlice g
                       * (n_extra_x_slices_left g + Nmesh g + snd (get_extra_slices_needed_by_order p))
                     \<le> int k)"
  define F where "F = (\<lambda>i d. if i < length part
                                   then deposit_particle p nf (get_pos (part ! i)) d
                                   else Inl UndefinedBehaviour)"
  define Inv where "Inv = (\<lambda>i d. \<exists>r. d = g\<lparr>fourier_grid_raw := r\<rparr> \<and> length r = length raw
                         \<and> Tot r = Tot raw + nf * real i
                         \<and> (\<forall>k. far k \<longrightarrow> r ! k = raw ! k))"
  have step: "\<exists>s'. F i s = Inr s' \<and> Inv (Suc i) s'" if inv: "Inv i s" and i: "i < NumPart" for i s
  proof -
    obtain r where r: "s = g\<lparr>fourier_grid_raw := r\<rparr>" "length r = length raw"
        "Tot r = Tot raw + nf * real i" "\<forall>k. far k \<longrightarrow> r ! k = raw ! k"
      using inv unfolding Inv_def by blast
    have wfs: "grid_wf s" unfolding r(1) by (rule grid_wf_update_raw[OF wf]) (simp add: r(2) raw_def)
    have il: "i < length part" using i np by simp
    have lps: "N_dim s \<le> length (get_pos (part ! i))" using inside[OF i] by (simp add: r(1))
    have ps: "\<And>d. d < N_dim s \<Longrightarrow> 0 \<le> get_pos (part ! i) ! d
               \<and> (get_pos (part ! i) ! d < 1 \<or> (d \<noteq> 0 \<and> get_pos (part ! i) ! d = 1))"
      using inside[OF i] by (simp add: r(1))
    obtain r' where r': "deposit_particle p nf (get_pos (part ! i)) s = Inr (s\<lparr>fourier_grid_raw := r'\<rparr>)"
        "length r' = length r" "Tot r' = Tot r + nf" "\<forall>k. far k \<longrightarrow> r' ! k = r ! k"
      using deposit_particle_mass[OF wfs _ _ p _ _ _ _ _ lps ps, of nf] single nL nR nM lim lima
      unfolding Tot_def far_def r(2)[symmetric] by (auto simp: r(1))
    have "Tot r' = Tot raw + nf * real (Suc i)" unfolding r'(3) r(3) by (simp add: algebra_simps)
    moreover have "\<forall>k. far k \<longrightarrow> r' ! k = raw ! k" using r'(4) r(4) by simp
    moreover have "F i s = Inr (g\<lparr>fourier_grid_raw := r'\<rparr>)"
      using r'(1) il by (simp add: F_def r(1))
    ultimately show ?thesis unfolding Inv_def using r(2) r'(2) by auto
  qed
  have "Inv 0 g" unfolding Inv_def by (intro exI[of _ raw]) (simp add: raw_def)
  then have "\<exists>s'. fold_err F (map (\<lambda>i. i) [0..<0 + NumPart]) g = Inr s' \<and> Inv (0 + NumPart) s'"
    by (rule fold_err_upt_inv) (use step in auto)
  then show ?thesis unfolding Inv_def F_def Tot_def far_def raw_def by auto
qed

section \<open>The reduction of the ghost slabs\<close>

lemma length_slab_add [simp]: "length (slab_add n dst src raw) = length raw"
  by (simp add: slab_add_def)

lemma nth_slab_add:
  "k < length raw \<Longrightarrow> slab_add n dst src raw ! k =
     (if dst \<le> k \<and> k < dst + n then raw ! k + (raw ! (k - dst + src) + 1) else raw ! k)"
  by (simp add: slab_add_def)

lemma add_slice_closed:
  assumes "dst + n \<le> length raw" "src + n \<le> length raw" "dst + n \<le> src \<or> src + n \<le> dst"
  shows "add_slice (int n) (int dst) (int src) raw = Inr (slab_add n dst src raw)"
proof -
  define body where "body = (\<lambda>j raw. bind_err (load_real raw (int src + j)) (\<lambda>temp.
                 bind_err (load_real raw (int dst + j)) (\<lambda>old.
                 store_real raw (int dst + j) (old + (temp + 1)))))"
  have "m \<le> n \<Longrightarrow> fold_err body (map int [0..<m]) raw = Inr (slab_add m dst src raw)" for m
  proof (induction m)
    case 0
    have "slab_add 0 dst src raw = raw" by (rule nth_equalityI) (simp_all add: nth_slab_add)
    then show ?case by simp
  next
    case (Suc m)
    define r where "r = slab_add m dst src raw"
    have ih: "fold_err body (map int [0..<m]) raw = Inr r" using Suc by (simp add: r_def)
    have s: "src + m < length raw" and d: "dst + m < length raw" using Suc.prems assms(1,2) by auto
    have rs: "r ! (src + m) = raw ! (src + m)"
      unfolding r_def using s assms(3) Suc.prems by (auto simp: nth_slab_add)
    have rd: "r ! (dst + m) = raw ! (dst + m)"
      unfolding r_def using d by (simp add: nth_slab_add)
    have ns: "nat (int src + int m) = src + m" and nd: "nat (int dst + int m) = dst + m" by simp_all
    have b: "body (int m) r = Inr (r[dst + m := raw ! (dst + m) + (raw ! (src + m) + 1)])"
      using s d by (simp add: body_def load_real_def store_real_def bind_err_def r_def ns nd
          rs[unfolded r_def] rd[unfolded r_def])
    have e: "r[dst + m := raw ! (dst + m) + (raw ! (src + m) + 1)] = slab_add (Suc m) dst src raw"
    proof (rule nth_equalityI)
      show "length (r[dst + m := raw ! (dst + m) + (raw ! (src + m) + 1)])
            = length (slab_add (Suc m) dst src raw)" by (simp add: r_def)
    next
      fix k assume "k < length (r[dst + m := raw ! (dst + m) + (raw ! (src + m) + 1)])"
      then have k: "k < length raw" by (simp add: r_def)
      show "r[dst + m := raw ! (dst + m) + (raw ! (src + m) + 1)] ! k
            = slab_add (Suc m) dst src raw ! k"
      proof (cases "k = dst + m")
        case True
        then show ?thesis using k by (simp add: r_def nth_slab_add add.commute)
      next
        case False
        then show ?thesis using k by (auto simp: r_def nth_slab_add)
      qed
    qed
    show ?case using ih b e by (simp add: fold_err_append bind_err_def)
  qed
  from this[of n] show ?thesis by (simp add: add_slice_def body_def)
qed

lemma mod_shift: "b mod st = 0 \<Longrightarrow> (a + b) mod st = a mod (st::int)"
  by (metis add.right_neutral mod_add_right_eq)

lemma slab_add_mass_dst:
  assumes "dst + n \<le> length raw" "int dst mod st = 0" "int src mod st = 0"
  shows "(\<Sum>k = dst..<dst + n. lane_mass st M (slab_add n dst src raw) k)
       = (\<Sum>k = dst..<dst + n. lane_mass st M raw k) + (\<Sum>k = src..<src + n. lane_mass st M raw k)"
proof -
  have a: "(\<Sum>k = dst..<dst + n. f k) = (\<Sum>j = 0..<n. f (j + dst))" for f :: "nat \<Rightarrow> real" and dst
    using sum.shift_bounds_nat_ivl[of f 0 dst n] by (simp add: add.commute)
  have "(\<Sum>j = 0..<n. lane_mass st M (slab_add n dst src raw) (j + dst))
      = (\<Sum>j = 0..<n. lane_mass st M raw (j + dst) + lane_mass st M raw (j + src))"
  proof (rule sum.cong[OF refl])
    fix j assume "j \<in> {0..<n}"
    then have j: "j < n" by simp
    have k: "j + dst < length raw" using j assms(1) by simp
    have m1: "int (j + dst) mod st = int j mod st" using mod_shift[OF assms(2), of "int j"] by simp
    have m2: "int (j + src) mod st = int j mod st" using mod_shift[OF assms(3), of "int j"] by simp
    have L: "lane_mass st M r (j + dst) = (if int j mod st < M then r ! (j + dst) + 1 else 0)" for r
      by (simp only: lane_mass_def m1)
    have L2: "lane_mass st M raw (j + src) = (if int j mod st < M then raw ! (j + src) + 1 else 0)"
      by (simp only: lane_mass_def m2)
    have v: "slab_add n dst src raw ! (j + dst) = raw ! (j + dst) + (raw ! (j + src) + 1)"
      using j k by (simp add: nth_slab_add)
    show "lane_mass st M (slab_add n dst src raw) (j + dst)
          = lane_mass st M raw (j + dst) + lane_mass st M raw (j + src)"
      unfolding L L2 v by simp
  qed
  also have "\<dots> = (\<Sum>j = 0..<n. lane_mass st M raw (j + dst)) + (\<Sum>j = 0..<n. lane_mass st M raw (j + src))"
    by (rule sum.distrib)
  finally show ?thesis unfolding a .
qed

lemma slab_add_mass_outside:
  assumes "b \<le> length raw" "b \<le> dst \<or> dst + n \<le> a"
  shows "(\<Sum>k = a..<b. lane_mass st M (slab_add n dst src raw) k) = (\<Sum>k = a..<b. lane_mass st M raw k)"
  by (rule sum.cong[OF refl]) (use assms in \<open>auto simp: lane_mass_def nth_slab_add\<close>)

lemma slab_add_noop:
  assumes "\<And>j. j < n \<Longrightarrow> raw ! (src + j) = - 1"
  shows "slab_add n dst src raw = raw"
proof (rule nth_equalityI)
  show "length (slab_add n dst src raw) = length raw" by simp
next
  fix k assume "k < length (slab_add n dst src raw)"
  then have k: "k < length raw" by simp
  show "slab_add n dst src raw ! k = raw ! k"
  proof (cases "dst \<le> k \<and> k < dst + n")
    case True
    then have "raw ! (src + (k - dst)) = - 1" by (intro assms) auto
    then show ?thesis using k True by (simp add: nth_slab_add add.commute)
  next
    case False
    then show ?thesis using k by (auto simp: nth_slab_add)
  qed
qed

lemma lane_mass_empty:
  assumes "\<And>j. j < n \<Longrightarrow> raw ! (src + j) = - 1"
  shows "(\<Sum>k = src..<src + n. lane_mass st M raw k) = 0"
proof (rule sum.neutral, rule ballI)
  fix k assume "k \<in> {src..<src + n}"
  then have "raw ! (src + (k - src)) = - 1" by (intro assms) auto
  moreover have "src + (k - src) = k" using \<open>k \<in> {src..<src + n}\<close> by simp
  ultimately show "lane_mass st M raw k = 0" by (simp add: lane_mass_def)
qed

lemma ghost_step:
  assumes geom: "int dst mod st = 0" "int src mod st = 0" "dst + n \<le> length r"
      "src + n \<le> length r" "dst + n \<le> src \<or> src + n \<le> dst"
    and own: "A \<le> B" "B \<le> length r"
    and cases: "(A \<le> dst \<and> dst + n \<le> B) \<or> (\<forall>j<n. r ! (src + j) = - 1)"
  shows "add_slice (int n) (int dst) (int src) r = Inr (slab_add n dst src r)"
    and "\<And>k. k < length r \<Longrightarrow> k < A \<or> B \<le> k \<Longrightarrow> slab_add n dst src r ! k = r ! k"
    and "(\<Sum>k = A..<B. lane_mass st M (slab_add n dst src r) k)
         = (\<Sum>k = A..<B. lane_mass st M r k) + (\<Sum>k = src..<src + n. lane_mass st M r k)"
proof -
  show "add_slice (int n) (int dst) (int src) r = Inr (slab_add n dst src r)"
    by (rule add_slice_closed[OF geom(3,4,5)])
  show "slab_add n dst src r ! k = r ! k" if "k < length r" "k < A \<or> B \<le> k" for k
  proof (cases "A \<le> dst \<and> dst + n \<le> B")
    case True
    then show ?thesis using that by (auto simp: nth_slab_add)
  next
    case False
    then have "slab_add n dst src r = r" using cases by (intro slab_add_noop) auto
    then show ?thesis by simp
  qed
  show "(\<Sum>k = A..<B. lane_mass st M (slab_add n dst src r) k)
         = (\<Sum>k = A..<B. lane_mass st M r k) + (\<Sum>k = src..<src + n. lane_mass st M r k)"
  proof (cases "A \<le> dst \<and> dst + n \<le> B")
    case True
    have split: "(\<Sum>k = A..<B. f k)
        = (\<Sum>k = A..<dst. f k) + (\<Sum>k = dst..<dst + n. f k) + (\<Sum>k = dst + n..<B. f k)"
      for f :: "nat \<Rightarrow> real"
      using True sum.atLeastLessThan_concat[of A dst "dst + n" f]
        sum.atLeastLessThan_concat[of A "dst + n" B f] by simp
    have 1: "(\<Sum>k = A..<dst. lane_mass st M (slab_add n dst src r) k) = (\<Sum>k = A..<dst. lane_mass st M r k)"
      by (rule slab_add_mass_outside) (use geom(3) in auto)
    have 2: "(\<Sum>k = dst + n..<B. lane_mass st M (slab_add n dst src r) k)
           = (\<Sum>k = dst + n..<B. lane_mass st M r k)"
      by (rule slab_add_mass_outside) (use own(2) in auto)
    have 3: "(\<Sum>k = dst..<dst + n. lane_mass st M (slab_add n dst src r) k)
       = (\<Sum>k = dst..<dst + n. lane_mass st M r k) + (\<Sum>k = src..<src + n. lane_mass st M r k)"
      by (rule slab_add_mass_dst[OF geom(3,1,2)])
    show ?thesis
      unfolding split[of "lane_mass st M (slab_add n dst src r)"] split[of "lane_mass st M r"] 1 2 3
      by simp
  next
    case False
    then have m: "\<And>j. j < n \<Longrightarrow> r ! (src + j) = - 1" using cases by auto
    have "slab_add n dst src r = r" by (rule slab_add_noop[OF m])
    moreover have "(\<Sum>k = src..<src + n. lane_mass st M r k) = 0" by (rule lane_mass_empty[OF m])
    ultimately show ?thesis by simp
  qed
qed

lemma wf_storage_layout:
  assumes wf: "grid_wf g"
  defines "Sn \<equiv> nat (NmeshTotRealSlice g)"
  shows "int Sn = NmeshTotRealSlice g"
    and "length (fourier_grid_raw g)
         = Sn * (nat (n_extra_x_slices_left g) + nat (Local_nx g) + nat (n_extra_x_slices_right g))"
    and "\<And>t. int (Sn * t) mod (2 * (Nmesh g div 2 + 1)) = 0"
proof -
  have S1: "1 \<le> NmeshTotRealSlice g" by (rule wf_slice_pos[OF wf])
  then show i: "int Sn = NmeshTotRealSlice g" by (simp add: Sn_def)
  have f: "0 \<le> n_extra_x_slices_left g" "0 \<le> n_extra_x_slices_right g" "1 \<le> Local_nx g"
    using wf by (auto simp: grid_wf_def)
  have "int (length (fourier_grid_raw g))
      = NmeshTotRealSlice g * (n_extra_x_slices_left g + Local_nx g + n_extra_x_slices_right g)"
    using wf by (simp add: grid_wf_def algebra_simps)
  also have "\<dots> = int (Sn * (nat (n_extra_x_slices_left g) + nat (Local_nx g)
                        + nat (n_extra_x_slices_right g)))"
    using f by (simp add: i)
  finally show "length (fourier_grid_raw g)
         = Sn * (nat (n_extra_x_slices_left g) + nat (Local_nx g) + nat (n_extra_x_slices_right g))"
    by (simp only: of_nat_eq_iff)
  have S: "NmeshTotRealSlice g = Nmesh g ^ (N_dim g - 2) * (2 * (Nmesh g div 2 + 1))"
    using wf by (simp add: grid_wf_def)
  show "int (Sn * t) mod (2 * (Nmesh g div 2 + 1)) = 0" for t
  proof -
    have "int (Sn * t) = (int t * Nmesh g ^ (N_dim g - 2)) * (2 * (Nmesh g div 2 + 1))"
      unfolding of_nat_mult i by (subst S) (simp add: algebra_simps)
    then show ?thesis by (simp only: mod_mult_self2_is_0)
  qed
qed

lemma lane_mass_cong: "r ! k = r' ! k \<Longrightarrow> lane_mass st M r k = lane_mass st M r' k"
  by (simp add: lane_mass_def)

lemma add_contribution_mass:
  assumes wf: "grid_wf g" and single: "Local_nx g = Nmesh g"
    and lim: "NmeshTotRealAlloc g < 2147483648"
    and nM: "nLe \<le> Nmesh g" "nRe \<le> Nmesh g"
    and far: "\<And>k. k < length (fourier_grid_raw g) \<Longrightarrow>
                int k < NmeshTotRealSlice g * (n_extra_x_slices_left g - nLe)
                \<or> NmeshTotRealSlice g * (n_extra_x_slices_left g + Nmesh g + nRe) \<le> int k
                \<Longrightarrow> fourier_grid_raw g ! k = - 1"
  shows "\<exists>raw'. add_contribution_from_extra_slices g = Inr (g\<lparr>fourier_grid_raw := raw'\<rparr>)
      \<and> length raw' = length (fourier_grid_raw g)
      \<and> (\<Sum>k = nat (NmeshTotRealSlice g) * nat (n_extra_x_slices_left g)
               ..< nat (NmeshTotRealSlice g) * (nat (n_extra_x_slices_left g) + nat (Nmesh g)).
            lane_mass (2 * (Nmesh g div 2 + 1)) (Nmesh g) raw' k)
        = (\<Sum>k<length (fourier_grid_raw g).
            lane_mass (2 * (Nmesh g div 2 + 1)) (Nmesh g) (fourier_grid_raw g) k)"
proof -
  define Sn where "Sn = nat (NmeshTotRealSlice g)"
  define a where "a = nat (n_extra_x_slices_left g)"
  define m where "m = nat (Nmesh g)"
  define b where "b = nat (n_extra_x_slices_right g)"
  define raw where "raw = fourier_grid_raw g"
  define st where "st = 2 * (Nmesh g div 2 + 1)"
  define sl where "sl = (\<lambda>t. Sn * t)"
  define Seg where "Seg = (\<lambda>r lo hi. \<Sum>k = lo..<hi. lane_mass st (Nmesh g) r k)"
  define Own where "Own = (\<lambda>r. Seg r (sl a) (sl (a + m)))"
  have f: "0 \<le> n_extra_x_slices_left g" "0 \<le> n_extra_x_slices_right g" "1 \<le> Nmesh g"
    using wf by (auto simp: grid_wf_def)
  have ia: "int a = n_extra_x_slices_left g" and ib: "int b = n_extra_x_slices_right g"
    and im: "int m = Nmesh g" and m1: "1 \<le> m"
    using f by (simp_all add: a_def b_def m_def)
  have iS: "int Sn = NmeshTotRealSlice g"
    unfolding Sn_def by (rule wf_storage_layout(1)[OF wf])
  have len: "length raw = sl (a + m + b)"
    unfolding raw_def sl_def Sn_def a_def b_def m_def
    using wf_storage_layout(2)[OF wf] single by simp
  have slmod: "int (sl t) mod st = 0" for t
    unfolding sl_def st_def Sn_def by (rule wf_storage_layout(3)[OF wf])
  have slmono: "sl t \<le> sl u" if "t \<le> u" for t u
    unfolding sl_def using that by simp
  have slsuc: "sl (Suc t) = sl t + Sn" for t by (simp add: sl_def)
  have isl: "int (sl t) = NmeshTotRealSlice g * int t" for t by (simp add: sl_def iS)
  have S1: "1 \<le> NmeshTotRealSlice g" by (rule wf_slice_pos[OF wf])
  have "int (sl 1) \<le> int (sl (a + m + b))" using slmono[of 1 "a + m + b"] m1 by simp
  then have "NmeshTotRealSlice g \<le> int (length raw)" by (simp add: isl len)
  then have "NmeshTotRealSlice g < 2147483648"
    using lim wf by (simp add: grid_wf_def raw_def)
  then have ncs: "to_int32 (get_ntot_real_slice_alloc g) = int Sn"
    unfolding get_ntot_real_slice_alloc_def iS using S1 by (intro to_int32_id) simp_all
  have farR: "raw ! k = - 1" if "sl t \<le> k" "k < length raw" "a + m + m \<le> t" for k t
  proof -
    have "nRe \<le> int t - int a - int m" using that(3) nM(2) im by linarith
    then have "NmeshTotRealSlice g * (n_extra_x_slices_left g + Nmesh g + nRe)
               \<le> NmeshTotRealSlice g * int t"
      using S1 ia im by (intro mult_left_mono) simp_all
    also have "\<dots> \<le> int k" using that(1) isl[of t] by simp
    finally show ?thesis using far[of k] that(2) by (simp add: raw_def)
  qed
  have farL: "raw ! k = - 1" if "k < sl t" "t + m \<le> a" for k t
  proof -
    have "sl t \<le> sl (a + m + b)" using that(2) by (intro slmono) simp
    then have kl: "k < length raw" using that(1) len by simp
    have "int t \<le> int a - nLe" using that(2) nM(1) im by linarith
    then have "NmeshTotRealSlice g * int t
               \<le> NmeshTotRealSlice g * (n_extra_x_slices_left g - nLe)"
      using S1 ia by (intro mult_left_mono) simp_all
    moreover have "int k < NmeshTotRealSlice g * int t" using that(1) isl[of t] by simp
    ultimately show ?thesis using far[of k] kl by (simp add: raw_def)
  qed
  define FR where "FR = (\<lambda>i raw. add_slice (to_int32 (get_ntot_real_slice_alloc g))
                       (get_real_grid g + int_mul (to_int32 (get_ntot_real_slice_alloc g)) i)
                       (get_real_grid_right g + int_mul (to_int32 (get_ntot_real_slice_alloc g)) i) raw)"
  define FL where "FL = (\<lambda>i raw. add_slice (to_int32 (get_ntot_real_slice_alloc g))
                       (get_real_grid g + to_int32 (get_ntot_real_slice_alloc g) * (Local_nx g - i))
                       (get_real_grid g - int_mul i (to_int32 (get_ntot_real_slice_alloc g))) raw)"
  have lenb: "int (length raw) < 2147483648" using lim wf by (simp add: grid_wf_def raw_def)
  have pr: "int_mul (int Sn) (int i) = int Sn * int i" "int_mul (int i) (int Sn) = int i * int Sn"
    if "i \<le> a + m + b" for i
  proof -
    have "sl i \<le> length raw" unfolding len using that by (rule slmono)
    then have "int (sl i) < 2147483648" using lenb by linarith
    moreover have "int Sn * int i = int (sl i)" by (simp add: sl_def)
    ultimately have u: "int Sn * int i < 2147483648" by simp
    have "(0::int) \<le> int Sn * int i" by simp
    then have l: "- 2147483648 \<le> int Sn * int i" by linarith
    show "int_mul (int Sn) (int i) = int Sn * int i" by (rule int_mul_id[OF l u])
    have u': "int i * int Sn < 2147483648" and l': "- 2147483648 \<le> int i * int Sn"
      using u l by (simp_all add: mult.commute)
    show "int_mul (int i) (int Sn) = int i * int Sn" by (rule int_mul_id[OF l' u'])
  qed
  have eR: "FR (int i) r = add_slice (int Sn) (int (sl (a + i))) (int (sl (a + m + i))) r"
    if "i < b" for i r
  proof -
    have ib': "i \<le> a + m + b" using that by simp
    show ?thesis
      unfolding FR_def ncs pr(1)[OF ib'] get_real_grid_def get_real_grid_right_def
        get_real_grid_left_def isl single iS[symmetric] ia[symmetric] im[symmetric]
      by (simp add: algebra_simps)
  qed
  have eL: "FL (int i) r = add_slice (int Sn) (int (sl (a + m - i))) (int (sl (a - i))) r"
    if "i \<le> a" for i r
  proof -
    have 1: "int (a + m - i) = int a + (int m - int i)" and 2: "int (a - i) = int a - int i"
      using that by simp_all
    have ib': "i \<le> a + m + b" using that by simp
    show ?thesis
      unfolding FL_def ncs pr(2)[OF ib'] get_real_grid_def get_real_grid_left_def
        isl single iS[symmetric] ia[symmetric] im[symmetric] 1 2
      by (simp add: algebra_simps)
  qed
  define InvR where "InvR = (\<lambda>i r. length r = length raw
      \<and> (\<forall>k<length raw. k < sl a \<or> sl (a + m) \<le> k \<longrightarrow> r ! k = raw ! k)
      \<and> Own r = Own raw + Seg raw (sl (a + m)) (sl (a + m + i)))"
  have stepR: "\<exists>r'. FR (int i) r = Inr r' \<and> InvR (Suc i) r'" if inv: "InvR i r" and i: "i < b" for i r
  proof -
    have lr: "length r = length raw"
      and gh: "\<And>k. k < length raw \<Longrightarrow> k < sl a \<or> sl (a + m) \<le> k \<Longrightarrow> r ! k = raw ! k"
      and ow: "Own r = Own raw + Seg raw (sl (a + m)) (sl (a + m + i))"
      using inv unfolding InvR_def by auto
    define dst where "dst = sl (a + i)"
    define src where "src = sl (a + m + i)"
    have d1: "dst + Sn = sl (a + i + 1)" and s1: "src + Sn = sl (a + m + i + 1)"
      using slsuc[of "a + i"] slsuc[of "a + m + i"] by (simp_all add: dst_def src_def)
    have g3: "dst + Sn \<le> length r" unfolding d1 lr len using i by (intro slmono) simp
    have g4: "src + Sn \<le> length r" unfolding s1 lr len using i by (intro slmono) simp
    have g5: "dst + Sn \<le> src \<or> src + Sn \<le> dst"
      unfolding d1 src_def using m1 by (intro disjI1 slmono) simp
    have o1: "sl a \<le> sl (a + m)" by (intro slmono) simp
    have o2: "sl (a + m) \<le> length r" unfolding lr len by (intro slmono) simp
    have srcB: "sl (a + m) \<le> src" unfolding src_def by (intro slmono) simp
    have cs: "(sl a \<le> dst \<and> dst + Sn \<le> sl (a + m)) \<or> (\<forall>j<Sn. r ! (src + j) = - 1)"
    proof (cases "i < m")
      case True
      have "sl a \<le> dst" unfolding dst_def by (intro slmono) simp
      moreover have "dst + Sn \<le> sl (a + m)" unfolding d1 using True by (intro slmono) simp
      ultimately show ?thesis by simp
    next
      case False
      have "r ! (src + j) = - 1" if j: "j < Sn" for j
      proof -
        have k: "src + j < length raw" using g4 j lr by simp
        have "r ! (src + j) = raw ! (src + j)" using gh[OF k] srcB by simp
        also have "raw ! (src + j) = - 1"
          by (rule farR[of "a + m + i"]) (use False k in \<open>simp_all add: src_def\<close>)
        finally show ?thesis .
      qed
      then show ?thesis by simp
    qed
    define r' where "r' = slab_add Sn dst src r"
    note gs = ghost_step[OF slmod[of "a + i", folded dst_def] slmod[of "a + m + i", folded src_def]
        g3 g4 g5 o1 o2 cs, folded r'_def]
    have a1: "FR (int i) r = Inr r'" unfolding eR[OF i] using gs(1) by (simp add: dst_def src_def)
    have a2: "length r' = length raw" by (simp add: r'_def lr)
    have a3: "\<forall>k<length raw. k < sl a \<or> sl (a + m) \<le> k \<longrightarrow> r' ! k = raw ! k"
      using gs(2) gh lr by simp
    have "Seg r src (src + Sn) = Seg raw src (src + Sn)"
      unfolding Seg_def
    proof (rule sum.cong[OF refl])
      fix k assume "k \<in> {src..<src + Sn}"
      then have "k < length raw" "sl (a + m) \<le> k" using g4 lr srcB by auto
      then show "lane_mass st (Nmesh g) r k = lane_mass st (Nmesh g) raw k"
        by (intro lane_mass_cong gh) simp_all
    qed
    moreover have "Own r' = Own r + Seg r src (src + Sn)"
      unfolding Own_def Seg_def using gs(3) by (simp add: st_def)
    moreover have "Seg raw (sl (a + m)) (sl (a + m + i)) + Seg raw src (src + Sn)
                   = Seg raw (sl (a + m)) (sl (a + m + Suc i))"
    proof -
      have e: "sl (a + m + i) + Sn = sl (a + m + Suc i)" using slsuc[of "a + m + i"] by simp
      have "sl (a + m) \<le> sl (a + m + i)" by (intro slmono) simp
      moreover have "sl (a + m + i) \<le> sl (a + m + Suc i)" by (intro slmono) simp
      ultimately show ?thesis unfolding Seg_def src_def e by (rule sum.atLeastLessThan_concat)
    qed
    ultimately have a4: "Own r' = Own raw + Seg raw (sl (a + m)) (sl (a + m + Suc i))"
      using ow by simp
    show ?thesis unfolding InvR_def using a1 a2 a3 a4 by blast
  qed
  have "InvR 0 raw" by (simp add: InvR_def Seg_def)
  then have "\<exists>s'. fold_err FR (map int [0..<0 + b]) raw = Inr s' \<and> InvR (0 + b) s'"
    by (rule fold_err_upt_inv) (use stepR in auto)
  then obtain raw1 where raw1: "fold_err FR (map int [0..<b]) raw = Inr raw1"
      "length raw1 = length raw"
      "\<And>k. k < length raw \<Longrightarrow> k < sl a \<or> sl (a + m) \<le> k \<Longrightarrow> raw1 ! k = raw ! k"
      "Own raw1 = Own raw + Seg raw (sl (a + m)) (sl (a + m + b))"
    unfolding InvR_def by auto
  define InvL where "InvL = (\<lambda>i r. length r = length raw
      \<and> (\<forall>k<length raw. k < sl a \<or> sl (a + m) \<le> k \<longrightarrow> r ! k = raw ! k)
      \<and> Own r = Own raw1 + Seg raw (sl (a + 1 - i)) (sl a))"
  have stepL: "\<exists>r'. FL (int i) r = Inr r' \<and> InvL (Suc i) r'"
    if inv: "InvL i r" and i: "1 \<le> i" "i < 1 + a" for i r
  proof -
    have lr: "length r = length raw"
      and gh: "\<And>k. k < length raw \<Longrightarrow> k < sl a \<or> sl (a + m) \<le> k \<Longrightarrow> r ! k = raw ! k"
      and ow: "Own r = Own raw1 + Seg raw (sl (a + 1 - i)) (sl a)"
      using inv unfolding InvL_def by auto
    define dst where "dst = sl (a + m - i)"
    define src where "src = sl (a - i)"
    have d1: "dst + Sn = sl (a + m - i + 1)" and s1: "src + Sn = sl (a + 1 - i)"
      using slsuc[of "a + m - i"] slsuc[of "a - i"] i by (simp_all add: dst_def src_def Suc_diff_le)
    have g3: "dst + Sn \<le> length r" unfolding d1 lr len using i by (intro slmono) simp
    have g4: "src + Sn \<le> length r" unfolding s1 lr len using i by (intro slmono) simp
    have g5: "dst + Sn \<le> src \<or> src + Sn \<le> dst"
      unfolding s1 dst_def using m1 i by (intro disjI2 slmono) simp
    have o1: "sl a \<le> sl (a + m)" by (intro slmono) simp
    have o2: "sl (a + m) \<le> length r" unfolding lr len by (intro slmono) simp
    have srcA: "src + Sn \<le> sl a" unfolding s1 using i by (intro slmono) simp
    have cs: "(sl a \<le> dst \<and> dst + Sn \<le> sl (a + m)) \<or> (\<forall>j<Sn. r ! (src + j) = - 1)"
    proof (cases "i \<le> m")
      case True
      have "sl a \<le> dst" unfolding dst_def using True by (intro slmono) simp
      moreover have "dst + Sn \<le> sl (a + m)" unfolding d1 using i by (intro slmono) simp
      ultimately show ?thesis by simp
    next
      case False
      have "r ! (src + j) = - 1" if j: "j < Sn" for j
      proof -
        have k: "src + j < sl (a + 1 - i)" using j s1 by simp
        then have k': "src + j < length raw" "src + j < sl a" using g4 lr srcA s1 by simp_all
        have "r ! (src + j) = raw ! (src + j)" using gh[OF k'(1)] k'(2) by simp
        also have "raw ! (src + j) = - 1"
          by (rule farL[OF k]) (use False i in simp)
        finally show ?thesis .
      qed
      then show ?thesis by simp
    qed
    define r' where "r' = slab_add Sn dst src r"
    note gs = ghost_step[OF slmod[of "a + m - i", folded dst_def] slmod[of "a - i", folded src_def]
        g3 g4 g5 o1 o2 cs, folded r'_def]
    have ia': "i \<le> a" using i by simp
    have a1: "FL (int i) r = Inr r'" unfolding eL[OF ia'] using gs(1) by (simp add: dst_def src_def)
    have a2: "length r' = length raw" by (simp add: r'_def lr)
    have a3: "\<forall>k<length raw. k < sl a \<or> sl (a + m) \<le> k \<longrightarrow> r' ! k = raw ! k"
      using gs(2) gh lr by simp
    have "Seg r src (src + Sn) = Seg raw src (src + Sn)"
      unfolding Seg_def
    proof (rule sum.cong[OF refl])
      fix k assume "k \<in> {src..<src + Sn}"
      then have "k < length raw" "k < sl a" using g4 lr srcA by auto
      then show "lane_mass st (Nmesh g) r k = lane_mass st (Nmesh g) raw k"
        by (intro lane_mass_cong gh) simp_all
    qed
    moreover have "Own r' = Own r + Seg r src (src + Sn)"
      unfolding Own_def Seg_def using gs(3) by (simp add: st_def)
    moreover have "Seg raw src (src + Sn) + Seg raw (sl (a + 1 - i)) (sl a)
                   = Seg raw (sl (a + 1 - Suc i)) (sl a)"
    proof -
      have e: "a + 1 - Suc i = a - i" by simp
      have "src \<le> src + Sn" by simp
      then show ?thesis
        unfolding Seg_def e src_def[symmetric] s1[symmetric]
        by (rule sum.atLeastLessThan_concat) (rule srcA)
    qed
    ultimately have a4: "Own r' = Own raw1 + Seg raw (sl (a + 1 - Suc i)) (sl a)"
      using ow by simp
    show ?thesis unfolding InvL_def using a1 a2 a3 a4 by blast
  qed
  have "InvL 1 raw1" using raw1(2,3) by (simp add: InvL_def Seg_def)
  then have "\<exists>s'. fold_err FL (map int [1..<1 + a]) raw1 = Inr s' \<and> InvL (1 + a) s'"
    by (rule fold_err_upt_inv) (use stepL in auto)
  then obtain raw2 where raw2: "fold_err FL (map int [1..<1 + a]) raw1 = Inr raw2"
      "length raw2 = length raw"
      "Own raw2 = Own raw1 + Seg raw (sl 0) (sl a)"
    unfolding InvL_def by auto
  have nb: "nat (n_extra_x_slices_right g) = b" and na: "nat (n_extra_x_slices_left g + 1) = 1 + a"
    using f by (simp_all add: a_def b_def)
  have run: "add_contribution_from_extra_slices g = Inr (g\<lparr>fourier_grid_raw := raw2\<rparr>)"
    unfolding add_contribution_from_extra_slices_def Let_def nb na
      FR_def[symmetric] FL_def[symmetric] raw_def[symmetric] raw1(1) bind_err_def
    by (simp only: raw2(1) sum.case)
  have "Own raw2 = Seg raw (sl 0) (sl a) + Seg raw (sl a) (sl (a + m)) + Seg raw (sl (a + m)) (sl (a + m + b))"
    using raw2(3) raw1(4) by (simp add: Own_def)
  also have "\<dots> = Seg raw (sl 0) (sl (a + m + b))"
    unfolding Seg_def
    using sum.atLeastLessThan_concat[of "sl 0" "sl a" "sl (a + m)" "lane_mass st (Nmesh g) raw"]
      sum.atLeastLessThan_concat[of "sl 0" "sl (a + m)" "sl (a + m + b)" "lane_mass st (Nmesh g) raw"]
      slmono[of 0 a] slmono[of a "a + m"] slmono[of "a + m" "a + m + b"] slmono[of 0 "a + m"]
    by simp
  also have "\<dots> = (\<Sum>k<length raw. lane_mass st (Nmesh g) raw k)"
    unfolding Seg_def len by (simp add: sl_def lessThan_atLeast0)
  finally have tot: "Own raw2 = (\<Sum>k<length raw. lane_mass st (Nmesh g) raw k)" .
  show ?thesis
    using run raw2(2) tot
    unfolding Own_def Seg_def sl_def raw_def st_def Sn_def a_def m_def
    by (intro exI[of _ raw2]) simp
qed

section \<open>The sum over the active cells\<close>

lemma sum_masked_head:
  fixes g :: "nat \<Rightarrow> real"
  assumes "M \<le> st"
  shows "(\<Sum>r<st. if r < M then g r else 0) = (\<Sum>r<M. g r)"
proof -
  have "(\<Sum>r = 0..<st. if r < M then g r else 0)
      = (\<Sum>r = 0..<M. if r < M then g r else 0) + (\<Sum>r = M..<st. if r < M then g r else 0)"
    by (rule sum.atLeastLessThan_concat[symmetric]) (use assms in simp_all)
  also have "(\<Sum>r = 0..<M. if r < M then g r else 0) = (\<Sum>r = 0..<M. g r)"
    by (rule sum.cong) simp_all
  also have "(\<Sum>r = M..<st. if r < M then g r else 0) = 0"
    by (rule sum.neutral) simp
  finally show ?thesis by (simp add: lessThan_atLeast0)
qed

lemma sum_block:
  fixes f :: "nat \<Rightarrow> real"
  shows "(\<Sum>k<Suc Q * n. f k) = (\<Sum>k<Q * n. f k) + (\<Sum>r<n. f (Q * n + r))"
proof -
  have "(\<Sum>k = 0..<Q * n + n. f k) = (\<Sum>k = 0..<Q * n. f k) + (\<Sum>k = Q * n..<Q * n + n. f k)"
    by (rule sum.atLeastLessThan_concat[symmetric]) simp_all
  moreover have "(\<Sum>k = Q * n..<Q * n + n. f k) = (\<Sum>r = 0..<n. f (r + Q * n))"
    using sum.shift_bounds_nat_ivl[of f 0 "Q * n" n] by (simp add: add.commute)
  ultimately show ?thesis by (simp add: lessThan_atLeast0 add.commute)
qed

lemma row_reindex:
  fixes f :: "nat \<Rightarrow> real"
  assumes "M \<le> st" "0 < M"
  shows "(\<Sum>i<Q * M. f (st * (i div M) + i mod M)) = (\<Sum>k<Q * st. if k mod st < M then f k else 0)"
proof (induction Q)
  case 0
  show ?case by simp
next
  case (Suc Q)
  have st0: "0 < st" using assms by simp
  have l: "(\<Sum>r<M. f (st * ((Q * M + r) div M) + (Q * M + r) mod M)) = (\<Sum>r<M. f (Q * st + r))"
    by (rule sum.cong[OF refl]) (use assms(2) in \<open>simp add: mult.commute\<close>)
  have "(\<Sum>r<st. if (Q * st + r) mod st < M then f (Q * st + r) else 0)
      = (\<Sum>r<st. if r < M then f (Q * st + r) else 0)"
    by (rule sum.cong[OF refl]) simp
  also have "\<dots> = (\<Sum>r<M. f (Q * st + r))" by (rule sum_masked_head[OF assms(1)])
  finally have r: "(\<Sum>r<st. if (Q * st + r) mod st < M then f (Q * st + r) else 0)
      = (\<Sum>r<M. f (Q * st + r))" .
  show ?case
    unfolding sum_block[of "\<lambda>i. f (st * (i div M) + i mod M)"]
      sum_block[of "\<lambda>k. if k mod st < M then f k else 0"] Suc.IH l r ..
qed

lemma fold_err_sum:
  assumes "\<And>x. x \<in> set xs \<Longrightarrow> f x = Inr (v x)"
  shows "fold_err (\<lambda>x s. bind_err (f x) (\<lambda>y. Inr (s + y))) xs a = Inr (a + sum_list (map v xs) :: real)"
  using assms by (induction xs arbitrary: a) (simp_all add: bind_err_def add.assoc)

lemma real_range_indices_closed:
  assumes wf: "grid_wf g" and lim: "NmeshTotRealAlloc g < 2147483648"
  shows "real_range_indices (get_real_range g)
         = Some (map (\<lambda>i. int i + pad_of (Nmesh g) * (int i div Nmesh g))
                   [0..<nat (NmeshTotReal g)])"
proof -
  define M where "M = Nmesh g"
  define st where "st = 2 * (M div 2 + 1)"
  define W where "W = M ^ (N_dim g - 2)"
  define Q where "Q = Local_nx g * W"
  define A where "A = n_extra_x_slices_left g + Local_nx g + n_extra_x_slices_right g"
  have N: "2 \<le> N_dim g" and M: "1 \<le> M" and g0: "0 \<le> n_extra_x_slices_left g"
    "0 \<le> n_extra_x_slices_right g" "1 \<le> Local_nx g"
    using wf by (auto simp: grid_wf_def M_def)
  have W1: "1 \<le> W" using M by (simp add: W_def)
  have "1 * 1 \<le> Local_nx g * W" using g0(3) W1 by (intro mult_mono) auto
  then have Q1: "1 \<le> Q" by (simp add: Q_def)
  have "N_dim g - 1 = Suc (N_dim g - 2)" using N by simp
  then have pw: "M ^ (N_dim g - 1) = W * M" by (simp add: W_def)
  have "NmeshTotReal g = Local_nx g * M ^ (N_dim g - 1)" using wf by (simp add: grid_wf_def M_def)
  then have T: "NmeshTotReal g = Q * M" unfolding pw by (simp add: Q_def)
  have stM: "M < st" unfolding st_def using M by presburger
  have al: "NmeshTotRealAlloc g = st * (W * A)"
    unfolding wf_alloc[OF wf] st_def W_def A_def M_def by simp
  have "Local_nx g * W \<le> A * W" using g0 W1 by (intro mult_right_mono) (auto simp: A_def)
  then have "Q \<le> W * A" by (simp add: Q_def mult.commute)
  then have "st * Q \<le> st * (W * A)" using stM M by (intro mult_left_mono) auto
  then have Qst: "Q * st < 2147483648" using lim al by (simp add: mult.commute)
  have "Q * M \<le> Q * st" using stM Q1 by (intro mult_left_mono) auto
  then have Tb: "Q * M < 2147483648" using Qst by simp
  have T0: "0 \<le> Q * M" using Q1 M by simp
  have t32: "to_int32 (Q * M) = Q * M" using T0 Tb by (intro to_int32_id) auto
  have dv: "Q * M div M = Q" using M by simp
  have pad: "pad_of M = st - M" unfolding st_def by (rule pad_of_stride[OF M])
  have "Q * M + pad_of M * (Q * M div M) = Q * st" unfolding dv pad by (simp add: algebra_simps)
  then have b: "Q * M + pad_of M * (Q * M div M) < 2147483648" using Qst by simp
  have "range_loop ((it_incr ^^ 0) (LoopIteratorReal_new 0 M)) (LoopIteratorReal_new (Q * M) M) []
        = Some ([] @ map (\<lambda>i. int i + pad_of M * (int i div M)) [0..<0 + nat (Q * M)])"
    by (rule range_loop_run[OF M b]) (use T0 in simp)
  then show ?thesis
    by (simp add: real_range_indices_def get_real_range_def RealRange_begin_def RealRange_end_def
        T t32[unfolded M_def] M_def)
qed

lemma sum_real_range_owned:
  assumes wf: "grid_wf g" and single: "Local_nx g = Nmesh g"
    and lim: "NmeshTotRealAlloc g < 2147483648"
  shows "\<exists>s. sum_real_range g = Some (Inr s)
     \<and> s + real_of_int (Nmesh g) ^ N_dim g
       = (\<Sum>k = nat (NmeshTotRealSlice g) * nat (n_extra_x_slices_left g)
               ..< nat (NmeshTotRealSlice g) * (nat (n_extra_x_slices_left g) + nat (Nmesh g)).
            lane_mass (2 * (Nmesh g div 2 + 1)) (Nmesh g) (fourier_grid_raw g) k)"
proof -
  define M where "M = Nmesh g"
  define st where "st = 2 * (M div 2 + 1)"
  define Mn where "Mn = nat M"
  define stn where "stn = nat st"
  define Wn where "Wn = Mn ^ (N_dim g - 2)"
  define Sn where "Sn = nat (NmeshTotRealSlice g)"
  define a where "a = nat (n_extra_x_slices_left g)"
  define b where "b = nat (n_extra_x_slices_right g)"
  define Gn where "Gn = Sn * a"
  define Qn where "Qn = Wn * Mn"
  define raw where "raw = fourier_grid_raw g"
  define cell where "cell = (\<lambda>i. stn * (i div Mn) + i mod Mn)"
  have N: "2 \<le> N_dim g" and M: "1 \<le> M" and g0: "0 \<le> n_extra_x_slices_left g"
    using wf by (auto simp: grid_wf_def M_def)
  have stM: "M < st" unfolding st_def using M by presburger
  have iM: "int Mn = M" and ist: "int stn = st" and M0: "0 < Mn" and Mst: "Mn \<le> stn"
    using M stM by (simp_all add: Mn_def stn_def)
  have ia: "int a = n_extra_x_slices_left g" using g0 by (simp add: a_def)
  have iS: "int Sn = NmeshTotRealSlice g" unfolding Sn_def by (rule wf_storage_layout(1)[OF wf])
  have "int (Wn * stn) = NmeshTotRealSlice g"
    using wf by (simp add: grid_wf_def Wn_def ist iM st_def M_def)
  then have SnW: "Sn = Wn * stn" using iS by (simp only: of_nat_eq_iff[symmetric])
  have len: "length raw = Sn * (a + Mn + b)"
    unfolding raw_def Sn_def a_def b_def Mn_def M_def
    using wf_storage_layout(2)[OF wf] single by simp
  have e1: "N_dim g - 1 = Suc (N_dim g - 2)" and e2: "N_dim g = Suc (Suc (N_dim g - 2))"
    using N by simp_all
  have tr: "NmeshTotReal g = Local_nx g * Nmesh g ^ (N_dim g - 1)"
    using wf by (simp add: grid_wf_def)
  have "int (Qn * Mn) = NmeshTotReal g"
    unfolding tr e1 single by (simp add: Qn_def Wn_def iM M_def)
  then have T: "nat (NmeshTotReal g) = Qn * Mn" by (metis nat_int)
  have own: "Sn * (a + Mn) = Gn + Qn * stn"
    by (simp add: Gn_def Qn_def SnW algebra_simps)
  have Gmod: "int Gn mod st = 0"
    unfolding Gn_def Sn_def st_def M_def by (rule wf_storage_layout(3)[OF wf])
  have ownlen: "Gn + Qn * stn \<le> length raw" unfolding own[symmetric] len by simp
  have pad: "pad_of M = st - M" unfolding st_def by (rule pad_of_stride[OF M])
  have idx: "int i + pad_of M * (int i div M) = int (cell i)" for i
  proof -
    have d: "int i div M = int (i div Mn)" by (simp add: iM[symmetric] zdiv_int)
    have "int i = int Mn * int (i div Mn) + int (i mod Mn)"
      by (metis mult_div_mod_eq of_nat_add of_nat_mult)
    then have "int i = M * int (i div Mn) + int (i mod Mn)" by (simp only: iM)
    then show ?thesis unfolding d pad cell_def by (simp add: ist algebra_simps)
  qed
  have cb: "cell i < Qn * stn" if "i < Qn * Mn" for i
  proof -
    have "i div Mn < Qn" using that M0 by (simp add: less_mult_imp_div_less)
    then have "Suc (i div Mn) \<le> Qn" by simp
    then have "stn * Suc (i div Mn) \<le> stn * Qn" by (rule mult_le_mono2)
    moreover have "i mod Mn < stn" using M0 Mst mod_less_divisor[of Mn i] by linarith
    ultimately show ?thesis by (simp add: cell_def mult.commute)
  qed
  define v where "v = (\<lambda>x. raw ! nat (NmeshTotRealSlice g * n_extra_x_slices_left g + x))"
  define ixs where "ixs = map (\<lambda>i. int i + pad_of M * (int i div M)) [0..<Qn * Mn]"
  have G: "NmeshTotRealSlice g * n_extra_x_slices_left g = int Gn"
    by (simp add: Gn_def iS ia)
  have ld: "get_real_from_index g x = Inr (v x)" if xin: "x \<in> set ixs" for x
  proof -
    have "\<exists>i. i < Qn * Mn \<and> x = int (cell i)" using xin idx by (auto simp: ixs_def)
    then obtain i where i: "i < Qn * Mn" "x = int (cell i)" by blast
    have "Gn + cell i < length raw" using cb[OF i(1)] ownlen by simp
    then show ?thesis
      unfolding get_real_from_index_def v_def G i(2) raw_def[symmetric]
      by (simp add: load_real_def)
  qed
  have vi: "v (int i + pad_of M * (int i div M)) = raw ! (Gn + cell i)" for i
    unfolding v_def G idx by (simp add: nat_int_add)
  define s where "s = (\<Sum>i<Qn * Mn. raw ! (Gn + cell i))"
  have "sum_list (map v ixs) = s"
    unfolding ixs_def s_def
    by (simp add: comp_def vi interv_sum_list_conv_sum_set_nat lessThan_atLeast0)
  then have run: "sum_real_range g = Some (Inr s)"
    unfolding sum_real_range_def real_range_indices_closed[OF wf lim] T
      M_def[symmetric] ixs_def[symmetric]
    using fold_err_sum[of ixs "get_real_from_index g" v 0] ld by simp
  have lm: "lane_mass st M raw (k + Gn) = (if k mod stn < Mn then raw ! (Gn + k) + 1 else 0)" for k
  proof -
    have "int (k + Gn) mod st = int k mod st" using mod_shift[OF Gmod, of "int k"] by simp
    also have "\<dots> = int (k mod stn)" by (simp add: ist[symmetric] zmod_int)
    finally have "int (k + Gn) mod st < M \<longleftrightarrow> k mod stn < Mn" by (simp add: iM[symmetric])
    then show ?thesis by (simp add: lane_mass_def add.commute)
  qed
  have "(\<Sum>k = Gn..<Gn + Qn * stn. lane_mass st M raw k)
      = (\<Sum>k = 0..<Qn * stn. lane_mass st M raw (k + Gn))"
    using sum.shift_bounds_nat_ivl[of "lane_mass st M raw" 0 Gn "Qn * stn"] by (simp add: add.commute)
  also have "\<dots> = (\<Sum>k<Qn * stn. if k mod stn < Mn then raw ! (Gn + k) + 1 else 0)"
    unfolding lm by (simp add: lessThan_atLeast0)
  also have "\<dots> = (\<Sum>i<Qn * Mn. raw ! (Gn + cell i) + 1)"
    unfolding cell_def by (rule row_reindex[OF Mst M0, symmetric])
  also have "\<dots> = s + real (Qn * Mn)" by (simp add: s_def sum.distrib)
  finally have ow: "(\<Sum>k = Gn..<Gn + Qn * stn. lane_mass st M raw k) = s + real (Qn * Mn)" .
  have "Mn ^ N_dim g = Mn ^ Suc (Suc (N_dim g - 2))" using e2 by simp
  then have "Qn * Mn = Mn ^ N_dim g" by (simp add: Qn_def Wn_def)
  then have "real (Qn * Mn) = real_of_int M ^ N_dim g"
    by (simp add: iM[symmetric])
  then have "s + real_of_int M ^ N_dim g = (\<Sum>k = Gn..<Sn * (a + Mn). lane_mass st M raw k)"
    using ow own by simp
  then show ?thesis using run
    unfolding Gn_def Sn_def a_def Mn_def st_def M_def raw_def by blast
qed

section \<open>The scatter conserves the mass\<close>


lemma scatter_mass:
  assumes wf: "grid_wf density"
    and single: "Local_nx density = Nmesh density" "Local_x_start density = 0"
    and p: "2 \<le> ORDER" "ORDER \<le> 5"
    and nL: "fst (get_extra_slices_needed_by_order ORDER) \<le> n_extra_x_slices_left density"
    and nR: "snd (get_extra_slices_needed_by_order ORDER) \<le> n_extra_x_slices_right density"
    and nM: "snd (get_extra_slices_needed_by_order ORDER) \<le> Nmesh density"
    and lim: "ORDER ^ N_dim density < 2147483648"
    and lima: "NmeshTotRealAlloc density < 2147483648"
    and np: "NumPart \<le> length part"
    and inside: "\<And>i d. i < NumPart \<Longrightarrow> N_dim density \<le> length (get_pos (part ! i))
                   \<and> (d < N_dim density \<longrightarrow> 0 \<le> get_pos (part ! i) ! d
                        \<and> (get_pos (part ! i) ! d < 1 \<or> (d \<noteq> 0 \<and> get_pos (part ! i) ! d = 1)))"
  shows "\<exists>d' s. particles_to_grid ORDER part NumPart NumPartTot density = Inr d'
           \<and> sum_real_range d' = Some (Inr s)
           \<and> s + real_of_int (Nmesh density) ^ N_dim density
               = real_of_int (Nmesh density) ^ N_dim density / real NumPartTot * real NumPart"
proof -
  define raw0 where "raw0 = replicate (length (fourier_grid_raw density)) (- 1 :: real)"
  define d0 where "d0 = density\<lparr>fourier_grid_raw := raw0\<rparr>"
  define nf where "nf = real_of_int (Nmesh density) ^ N_dim density / real NumPartTot"
  define st where "st = 2 * (Nmesh density div 2 + 1)"
  define S where "S = NmeshTotRealSlice density"
  define gL where "gL = n_extra_x_slices_left density"
  define needL where "needL = fst (get_extra_slices_needed_by_order ORDER)"
  define needR where "needR = snd (get_extra_slices_needed_by_order ORDER)"
  have fill: "fill_real_grid density (- 1) = Inr d0"
    unfolding d0_def raw0_def by (rule fill_real_grid_wf[OF wf])
  have l0: "length raw0 = length (fourier_grid_raw density)" by (simp add: raw0_def)
  have wf0: "grid_wf d0" unfolding d0_def by (rule grid_wf_update_raw[OF wf l0])
  have t0: "(\<Sum>k<length raw0. lane_mass st (Nmesh density) raw0 k) = 0"
    unfolding raw0_def length_replicate by (rule lane_mass_filled)
  obtain raw1 where raw1:
      "fold_err (\<lambda>i d. if i < length part then deposit_particle ORDER nf (get_pos (part ! i)) d
                        else Inl UndefinedBehaviour) [0..<NumPart] d0
        = Inr (density\<lparr>fourier_grid_raw := raw1\<rparr>)"
      "length raw1 = length raw0"
      "(\<Sum>k<length raw0. lane_mass st (Nmesh density) raw1 k) = nf * real NumPart"
      "\<forall>k. int k < S * (gL - needL) \<or> S * (gL + Nmesh density + needR) \<le> int k
           \<longrightarrow> raw1 ! k = raw0 ! k"
    using scatter_loop_mass[OF wf0 _ _ p _ _ _ _ _ np, of nf] single nL nR nM lim lima inside t0
    unfolding d0_def st_def S_def gL_def needL_def needR_def
    by auto
  define d1 where "d1 = density\<lparr>fourier_grid_raw := raw1\<rparr>"
  have wf1: "grid_wf d1" unfolding d1_def
    by (rule grid_wf_update_raw[OF wf]) (simp add: raw1(2) l0)
  have ord: "needL \<le> Nmesh density" "needR \<le> Nmesh density"
    using needed_slices_ordered[OF p] nM by (simp_all add: needL_def needR_def)
  have far: "fourier_grid_raw d1 ! k = - 1"
    if "k < length (fourier_grid_raw d1)"
       "int k < NmeshTotRealSlice d1 * (n_extra_x_slices_left d1 - needL)
        \<or> NmeshTotRealSlice d1 * (n_extra_x_slices_left d1 + Nmesh d1 + needR) \<le> int k" for k
  proof -
    have "raw1 ! k = raw0 ! k"
      using raw1(4)[rule_format, of k] that(2) by (simp add: d1_def S_def gL_def)
    moreover have "raw0 ! k = - 1" using that(1) raw1(2) by (simp add: d1_def raw0_def)
    ultimately show ?thesis by (simp add: d1_def)
  qed
  obtain raw2 where raw2:
      "add_contribution_from_extra_slices d1 = Inr (density\<lparr>fourier_grid_raw := raw2\<rparr>)"
      "length raw2 = length raw1"
      "(\<Sum>k = nat S * nat gL ..< nat S * (nat gL + nat (Nmesh density)).
            lane_mass st (Nmesh density) raw2 k)
        = (\<Sum>k<length raw1. lane_mass st (Nmesh density) raw1 k)"
    using add_contribution_mass[OF wf1 _ _ _ _ far, of needL needR] single(1) lima ord
    unfolding st_def S_def gL_def by (auto simp: d1_def)
  define d2 where "d2 = density\<lparr>fourier_grid_raw := raw2\<rparr>"
  have wf2: "grid_wf d2" unfolding d2_def
    by (rule grid_wf_update_raw[OF wf]) (simp add: raw2(2) raw1(2) l0)
  obtain s where s: "sum_real_range d2 = Some (Inr s)"
      "s + real_of_int (Nmesh density) ^ N_dim density
       = (\<Sum>k = nat S * nat gL ..< nat S * (nat gL + nat (Nmesh density)).
            lane_mass st (Nmesh density) raw2 k)"
    using sum_real_range_owned[OF wf2] single(1) lima
    unfolding st_def S_def gL_def by (auto simp: d2_def)
  have widths: "fst (get_extra_slices_needed_by_order ORDER) \<le> n_extra_x_slices_left density
                \<and> snd (get_extra_slices_needed_by_order ORDER) \<le> n_extra_x_slices_right density"
    using nL nR by simp
  have nf': "real_of_int (Nmesh d0) ^ N_dim d0 / real NumPartTot = nf"
    by (simp add: d0_def nf_def)
  have "particles_to_grid ORDER part NumPart NumPartTot density
        = bind_err (fold_err (\<lambda>i d. if i < length part
                                then deposit_particle ORDER
                                       (real_of_int (Nmesh d0) ^ N_dim d0 / real NumPartTot)
                                       (get_pos (part ! i)) d
                                else Inl UndefinedBehaviour) [0..<NumPart] d0)
            add_contribution_from_extra_slices"
    unfolding particles_to_grid_def Let_def using widths fill
    by (simp add: assert_mpi_def bind_err_def)
  then have run: "particles_to_grid ORDER part NumPart NumPartTot density = Inr d2"
    unfolding nf' raw1(1) using raw2(1) by (simp add: bind_err_def d1_def d2_def)
  have "s + real_of_int (Nmesh density) ^ N_dim density = nf * real NumPart"
    using s(2) raw2(3) raw1(2,3) by simp
  then show ?thesis using run s(1) unfolding nf_def by blast
qed

lemma wrap_unit_cell:
  "cell_of_particle g (get_pos (wrap_unit p)) = cell_of_particle g (get_pos p)
   \<and> offset_in_cell g (get_pos (wrap_unit p)) = offset_in_cell g (get_pos p)"
  if "N_dim g \<le> length (get_pos p)"
proof -
  have "(let ix = int_of_double (get_pos (wrap_unit p) ! d * real_of_int (Nmesh g))
         in if d = 0 then ix - Local_x_start g else if ix = Nmesh g then 0 else ix)
      = (let ix = int_of_double (get_pos p ! d * real_of_int (Nmesh g))
         in if d = 0 then ix - Local_x_start g else if ix = Nmesh g then 0 else ix)"
    and "get_pos (wrap_unit p) ! d * real_of_int (Nmesh g)
           - real_of_int (int_of_double (get_pos (wrap_unit p) ! d * real_of_int (Nmesh g)))
       = get_pos p ! d * real_of_int (Nmesh g)
           - real_of_int (int_of_double (get_pos p ! d * real_of_int (Nmesh g)))"
    if d: "d < N_dim g" for d
  proof -
    have dl: "d < length (get_pos p)" using d \<open>N_dim g \<le> length (get_pos p)\<close> by simp
    have n: "get_pos (wrap_unit p) ! d = (if 1 \<le> d \<and> get_pos p ! d = 1 then 0 else get_pos p ! d)"
      using dl by (simp add: wrap_unit_def)
    show "(let ix = int_of_double (get_pos (wrap_unit p) ! d * real_of_int (Nmesh g))
         in if d = 0 then ix - Local_x_start g else if ix = Nmesh g then 0 else ix)
      = (let ix = int_of_double (get_pos p ! d * real_of_int (Nmesh g))
         in if d = 0 then ix - Local_x_start g else if ix = Nmesh g then 0 else ix)"
      unfolding n by (auto simp: int_of_double_def Let_def)
    show "get_pos (wrap_unit p) ! d * real_of_int (Nmesh g)
           - real_of_int (int_of_double (get_pos (wrap_unit p) ! d * real_of_int (Nmesh g)))
       = get_pos p ! d * real_of_int (Nmesh g)
           - real_of_int (int_of_double (get_pos p ! d * real_of_int (Nmesh g)))"
      unfolding n by (auto simp: int_of_double_def)
  qed
  then show ?thesis by (simp add: cell_of_particle_def offset_in_cell_def)
qed

lemma wrap_unit_deposit:
  "deposit_particle ORDER nf (get_pos (wrap_unit p)) d = deposit_particle ORDER nf (get_pos p) d"
proof (cases "length (get_pos p) < N_dim d")
  case True
  then show ?thesis by (simp add: deposit_particle_def wrap_unit_def)
next
  case False
  then have l: "N_dim d \<le> length (get_pos p)" by simp
  have l': "length (get_pos (wrap_unit p)) = length (get_pos p)" by (simp add: wrap_unit_def)
  show ?thesis unfolding deposit_particle_def l' using wrap_unit_cell[OF l] by simp
qed

lemma wrap_unit_scatter:
  "particles_to_grid ORDER (map wrap_unit part) NumPart NumPartTot density
   = particles_to_grid ORDER part NumPart NumPartTot density"
proof -
  have "(\<lambda>i d. if i < length (map wrap_unit part)
                then deposit_particle ORDER nf (get_pos (map wrap_unit part ! i)) d
                else Inl UndefinedBehaviour)
      = (\<lambda>i d. if i < length part then deposit_particle ORDER nf (get_pos (part ! i)) d
                else Inl UndefinedBehaviour)" for nf
    by (intro ext) (simp add: wrap_unit_deposit)
  then show ?thesis unfolding particles_to_grid_def by simp
qed




section \<open>Positions on the upper edge of the box\<close>

text \<open>
  \<^bold>\<open>C8\<close>, as amended.  \<^verbatim>\<open>particles_to_grid\<close> does not fail on every position
  outside \<open>[0,1)\<close>.  Under the conditions of the statement above on order, grid
  and counts, for particles whose first component lies in \<open>[0,1)\<close> and whose
  other components lie in \<open>[0,1]\<close>: the call returns; a component equal to 1 on
  an axis \<open>k \<ge> 1\<close> is wrapped to cell 0 of that axis by the ``periodic BC'' step,
  the result being the one for the particles with these components replaced
  by 0 (the two results are equal for every order and every grid); and every
  particle is deposited, the active owned cells adding up to
  \<open>(M\<^sup>N / NumPartTot) * NumPart - M\<^sup>N\<close>.  Nothing is stated about other positions
  outside \<open>[0,1)\<close>.
\<close>

theorem unit_coordinate_is_wrapped:
  assumes "grid_wf density" "Local_nx density = Nmesh density" "Local_x_start density = 0"
    and "2 \<le> ORDER" "ORDER \<le> 5"
    and "fst (get_extra_slices_needed_by_order ORDER) \<le> n_extra_x_slices_left density"
    and "snd (get_extra_slices_needed_by_order ORDER) \<le> n_extra_x_slices_right density"
    and "snd (get_extra_slices_needed_by_order ORDER) \<le> Nmesh density"
    and "ORDER ^ N_dim density < 2147483648" "NmeshTotRealAlloc density < 2147483648"
    and "NumPart \<le> length part" "0 < NumPartTot"
    and "\<forall>i<NumPart. N_dim density \<le> length (get_pos (part ! i))
           \<and> (\<forall>d<N_dim density. 0 \<le> get_pos (part ! i) ! d \<and> get_pos (part ! i) ! d \<le> 1
                  \<and> (d = 0 \<longrightarrow> get_pos (part ! i) ! d < 1))"
  shows "\<exists>d' s. particles_to_grid ORDER part NumPart NumPartTot density = Inr d'
           \<and> particles_to_grid ORDER (map wrap_unit part) NumPart NumPartTot density = Inr d'
           \<and> sum_real_range d' = Some (Inr s)
           \<and> s + real_of_int (Nmesh density) ^ N_dim density
               = real_of_int (Nmesh density) ^ N_dim density / real NumPartTot * real NumPart"
proof -
  have ins: "N_dim density \<le> length (get_pos (part ! i))
       \<and> (d < N_dim density \<longrightarrow> 0 \<le> get_pos (part ! i) ! d
            \<and> (get_pos (part ! i) ! d < 1 \<or> (d \<noteq> 0 \<and> get_pos (part ! i) ! d = 1)))"
    if "i < NumPart" for i d
    using assms(13) that by (cases "get_pos (part ! i) ! d < 1") fastforce+
  have "\<exists>d' s. particles_to_grid ORDER part NumPart NumPartTot density = Inr d'
           \<and> sum_real_range d' = Some (Inr s)
           \<and> s + real_of_int (Nmesh density) ^ N_dim density
               = real_of_int (Nmesh density) ^ N_dim density / real NumPartTot * real NumPart"
    by (rule scatter_mass[OF assms(1-11) ins])
  then show ?thesis unfolding wrap_unit_scatter by blast
qed

theorem unit_coordinate_is_wrapped_witness:
  "\<exists>d'. particles_to_grid 2 [Particle [1/4, 1] None None] 1 1 (FFTWGrid_new 2 2 0 1) = Inr d'
       \<and> particles_to_grid 2 [Particle [1/4, 0] None None] 1 1 (FFTWGrid_new 2 2 0 1) = Inr d'
       \<and> sum_real_range d' = Some (Inr 0)"
proof -
  let ?g = "FFTWGrid_new 2 2 0 1"
  let ?part = "[Particle [1/4, 1] None None]"
  have wf: "grid_wf ?g" by (rule grid_wf_new) simp_all
  have al: "NmeshTotRealAlloc ?g < 2147483648"
    unfolding wf_alloc[OF wf] FFTWGrid_new_shape by simp
  have x0: "Local_x_start ?g = 0" by (simp add: FFTWGrid_new_def FFTWGrid_fields_def Let_def)
  have ins: "\<forall>i<1. N_dim ?g \<le> length (get_pos (?part ! i))
           \<and> (\<forall>d<N_dim ?g. 0 \<le> get_pos (?part ! i) ! d \<and> get_pos (?part ! i) ! d \<le> 1
                  \<and> (d = 0 \<longrightarrow> get_pos (?part ! i) ! d < 1))"
    by (simp add: FFTWGrid_new_shape All_less_Suc2 numeral_2_eq_2 nth_Cons')
  have w: "map wrap_unit ?part = [Particle [1/4, 0] None None]"
    by (simp add: wrap_unit_def upt_rec)
  obtain d' s where r: "particles_to_grid 2 ?part 1 1 ?g = Inr d'"
    "particles_to_grid 2 (map wrap_unit ?part) 1 1 ?g = Inr d'"
    "sum_real_range d' = Some (Inr s)"
    "s + real_of_int (Nmesh ?g) ^ N_dim ?g = real_of_int (Nmesh ?g) ^ N_dim ?g / real 1 * real 1"
    using unit_coordinate_is_wrapped[OF wf _ x0 _ _ _ _ _ _ al _ _ ins, of 2 1]
    by (auto simp: FFTWGrid_new_shape extra_slices_values)
  have "s = 0" using r(4) by (simp add: FFTWGrid_new_shape)
  then show ?thesis using r(1,2,3) unfolding w by blast
qed

text \<open>
  The claim as first stated fails: a particle whose second coordinate is
  exactly 1, outside \<open>[0,1)\<close>, is deposited (order 2, mesh of 2 cells per axis,
  one ghost slab on the right).  The ``periodic BC'' step moves it to cell 0
  of that axis, and cell \<open>(0,0)\<close> receives the whole weight:
  \<open>- 1 + 1 * 2\<^sup>2 / 1 = 3\<close>.
\<close>

theorem position_one_is_wrapped_counterexample:
  "particles_to_grid 2 [Particle [0, 1] None None] 1 1 (FFTWGrid_new 2 2 0 1)
   = Inr ((FFTWGrid_new 2 2 0 1)\<lparr>fourier_grid_raw := [3, - 1, - 1, - 1, - 1, - 1, - 1, - 1, - 1, - 1, - 1, - 1]\<rparr>)"
  by code_simp

end
